theory Spec2Isabelle
  imports Complex_Main "HOL-Library.Multiset"
begin

section \<open>Python values shared by both attribution methods\<close>

text \<open>
  The exceptions the two modules can raise on the paths modelled here.
  \<open>ZeroDivisionError\<close> comes from Python's integer \<open>//\<close> and float \<open>/\<close>,
  \<open>IndexError\<close> from indexing a tensor out of range, \<open>RuntimeError\<close> from the
  tensor library (a negative dimension, a reduction over no elements, an empty
  interpolation), \<open>ValueError\<close> from the explicit \<open>raise\<close> of \<open>Grad_CAM.py\<close>.
\<close>

datatype error = ZeroDivisionError | RuntimeError | IndexError | ValueError string

section \<open>Grad-CAM: choice of the target layer (\<open>Local_Backpropagation/Grad_CAM.py\<close>)\<close>

text \<open>
  The eight torchvision classes named by the \<open>isinstance\<close> chain of
  \<open>generate_attribution\<close>.
\<close>

datatype family =
  ConvNeXt | EfficientNet | ResNet | VisionTransformer | SwinTransformer
  | RegNet | MobileNetV3 | DenseNet

text \<open>
  What the dispatch looks at in a model object: the name of its class
  (\<open>type(model).__name__\<close>) and the torchvision classes it is an instance of
  (its own class or an ancestor of it).
\<close>

record cam_model =
  type_name :: string
  families :: "family list"

definition isinstance :: "cam_model \<Rightarrow> family \<Rightarrow> bool" where
  "isinstance model f = (f \<in> set (families model))"

text \<open>The attribute paths the chain evaluates on the model to obtain the layer.\<close>

datatype layer =
  Features_last            \<comment> \<open>\<open>model.features[-1]\<close>\<close>
  | Layer4_last            \<comment> \<open>\<open>model.layer4[-1]\<close>\<close>
  | Encoder_layers_last    \<comment> \<open>\<open>model.encoder.layers[-1]\<close>\<close>
  | Features_last_last_mlp0  \<comment> \<open>\<open>model.features[-1][-1].mlp[0]\<close>\<close>
  | Trunk_output           \<comment> \<open>\<open>model.trunk_output\<close>\<close>
  | Supplied nat           \<comment> \<open>a layer passed by the caller as \<open>target_layer\<close>\<close>

definition select_layer :: "cam_model \<Rightarrow> error + layer" where
  "select_layer model =
     (if isinstance model ConvNeXt then Inr Features_last
      else if isinstance model EfficientNet then Inr Features_last
      else if isinstance model ResNet then Inr Layer4_last
      else if isinstance model VisionTransformer then Inr Encoder_layers_last
      else if isinstance model SwinTransformer then Inr Features_last_last_mlp0
      else if isinstance model RegNet then Inr Trunk_output
      else if isinstance model MobileNetV3 then Inr Features_last
      else if isinstance model DenseNet then Inr Features_last
      else Inl (ValueError (''Unsupported model architecture: '' @ type_name model)))"

text \<open>
  \<open>LayerGradCam(model, target_layer).attribute(image, target=...)\<close> belongs to
  the attribution library and is a parameter here: \<open>attribute\<close> takes the state of
  the library and of the model (\<open>'c\<close>), the layer, the image and the class, and
  returns the attribution with the new state. A run that never calls it leaves
  the state as it was.
\<close>

definition gradcam_generate_attribution ::
  "'img \<Rightarrow> int \<Rightarrow> cam_model \<Rightarrow> layer option
     \<Rightarrow> ('c \<Rightarrow> cam_model \<Rightarrow> layer \<Rightarrow> 'img \<Rightarrow> int \<Rightarrow> 'a \<times> 'c) \<Rightarrow> 'c \<Rightarrow> (error + 'a) \<times> 'c" where
  "gradcam_generate_attribution img predicted_class model target_layer attribute c =
     (case (case target_layer of None \<Rightarrow> select_layer model | Some l \<Rightarrow> Inr l) of
        Inl e \<Rightarrow> (Inl e, c)
      | Inr l \<Rightarrow>
          (case attribute c model l img predicted_class of
             (attribution, c') \<Rightarrow> (Inr attribution, c')))"

text \<open>
  The layer the chain gives a model that is an instance of exactly one of the
  eight classes (the table the chain implements).
\<close>

fun layer_of_family :: "family \<Rightarrow> layer" where
  "layer_of_family ConvNeXt = Features_last"
| "layer_of_family EfficientNet = Features_last"
| "layer_of_family ResNet = Layer4_last"
| "layer_of_family VisionTransformer = Encoder_layers_last"
| "layer_of_family SwinTransformer = Features_last_last_mlp0"
| "layer_of_family RegNet = Trunk_output"
| "layer_of_family MobileNetV3 = Features_last"
| "layer_of_family DenseNet = Features_last"

definition eight_families :: "family list" where
  "eight_families =
     [ConvNeXt, EfficientNet, ResNet, VisionTransformer, SwinTransformer,
      RegNet, MobileNetV3, DenseNet]"

section \<open>Morris Sensitivity Analysis (\<open>Local_Perturbation/Morris_Sensitivity_Analysis.py\<close>)\<close>

subsection \<open>Tensors, the store and the model\<close>

text \<open>
  \<open>image\<close> is a float tensor of shape \<open>[B, C, H, W]\<close>: the four dimensions and
  the values as nested lists (batch, channel, row, column). Floating-point
  numbers are modelled by \<open>real\<close>: rounding, infinities and NaN are outside the
  model.
\<close>

record image_tensor =
  batch :: nat
  channels :: nat
  height :: nat
  width :: nat
  pixels :: "real list list list list"

definition wf_image :: "image_tensor \<Rightarrow> bool" where
  "wf_image x =
     (length (pixels x) = batch x
      \<and> (\<forall>b \<in> set (pixels x). length b = channels x
            \<and> (\<forall>c \<in> set b. length c = height x
                  \<and> (\<forall>r \<in> set c. length r = width x))))"

text \<open>
  A tensor whose rank is only known at run time (the result of \<open>squeeze\<close>):
  its shape and its values in row-major order.
\<close>

record tensor =
  shape :: "nat list"
  elems :: "real list"

text \<open>
  \<open>model\<close> is a callable object with state of its own (\<open>'s\<close>: parameters,
  buffers, random generators). \<open>eval_mode\<close> is \<open>model.eval()\<close>; \<open>forward\<close> is
  \<open>model(x)\<close>: from the state and the input tensor it gives the logits (one row
  per batch entry), the input tensor as the call leaves it (a call may write
  into its argument) and the new state.
\<close>

record 's model =
  eval_mode :: "'s \<Rightarrow> 's"
  forward :: "'s \<Rightarrow> image_tensor \<Rightarrow> real list list \<times> image_tensor \<times> 's"

text \<open>
  Python passes tensors by reference and \<open>+=\<close> on a slice writes in place, so
  the tensors live in a store: a reference is an index into \<open>tensors\<close>, and a
  new tensor is appended at the end.
\<close>

record 's world =
  tensors :: "image_tensor list"
  model_state :: 's

type_synonym ('s, 'a) prog = "'s world \<Rightarrow> (error + 'a) \<times> 's world"

definition call_model :: "'s model \<Rightarrow> nat \<Rightarrow> 's world \<Rightarrow> real list list \<times> 's world" where
  "call_model m x w =
     (case forward m (model_state w) (tensors w ! x) of
        (out, x', s') \<Rightarrow> (out, \<lparr>tensors = (tensors w)[x := x'], model_state = s'\<rparr>))"

definition clone :: "nat \<Rightarrow> 's world \<Rightarrow> nat \<times> 's world" where
  "clone x w = (length (tensors w), w\<lparr>tensors := tensors w @ [tensors w ! x]\<rparr>)"

subsection \<open>Python and tensor-library primitives\<close>

definition py_range :: "int \<Rightarrow> nat list" where
  \<comment> \<open>\<open>range(n)\<close>: empty when \<open>n \<le> 0\<close>\<close>
  "py_range n = [0..<nat n]"

definition floordiv :: "int \<Rightarrow> int \<Rightarrow> error + int" where
  \<comment> \<open>\<open>a // b\<close> on Python integers\<close>
  "floordiv a b = (if b = 0 then Inl ZeroDivisionError else Inr (a div b))"

definition py_index :: "'a list \<Rightarrow> int \<Rightarrow> error + 'a" where
  \<comment> \<open>\<open>xs[k]\<close>: a negative index counts from the end\<close>
  "py_index xs k =
     (let n = int (length xs); k' = (if k < 0 then k + n else k)
      in if 0 \<le> k' \<and> k' < n then Inr (xs ! nat k') else Inl IndexError)"

definition softmax :: "real list \<Rightarrow> real list" where
  "softmax row = map (\<lambda>v. exp v / sum_list (map exp row)) row"

definition target_prob :: "real list list \<Rightarrow> int \<Rightarrow> error + real" where
  \<comment> \<open>\<open>F.softmax(output, dim=1)[0, predicted_class.item()]\<close>\<close>
  "target_prob output k =
     (case py_index (map softmax output) 0 of
        Inl e \<Rightarrow> Inl e
      | Inr row \<Rightarrow> py_index row k)"

definition zeros :: "int \<Rightarrow> int \<Rightarrow> error + real list list" where
  \<comment> \<open>\<open>torch.zeros((nh, nw))\<close>: a negative dimension is refused\<close>
  "zeros nh nw =
     (if nh < 0 \<or> nw < 0 then Inl RuntimeError
      else Inr (replicate (nat nh) (replicate (nat nw) 0)))"

definition slice_bounds :: "nat \<Rightarrow> int \<Rightarrow> int \<Rightarrow> nat \<times> nat" where
  \<comment> \<open>the index range \<open>lo \<le> k < hi\<close> selected by \<open>a:b\<close> in a dimension of size \<open>n\<close>\<close>
  "slice_bounds n a b =
     (let clamp = (\<lambda>k. if k < 0 then max (k + int n) 0 else min k (int n))
      in (nat (clamp a), nat (clamp b)))"

definition update_slice :: "nat \<times> nat \<Rightarrow> ('a \<Rightarrow> 'a) \<Rightarrow> 'a list \<Rightarrow> 'a list" where
  "update_slice r f xs =
     map (\<lambda>k. if fst r \<le> k \<and> k < snd r then f (xs ! k) else xs ! k) [0..<length xs]"

definition add_to_slice :: "int \<Rightarrow> int \<Rightarrow> int \<Rightarrow> int \<Rightarrow> real \<Rightarrow> image_tensor \<Rightarrow> image_tensor" where
  \<comment> \<open>\<open>x[:, :, r0:r1, c0:c1] += delta\<close>\<close>
  "add_to_slice r0 r1 c0 c1 delta x =
     x\<lparr>pixels :=
         map (map (update_slice (slice_bounds (height x) r0 r1)
                     (update_slice (slice_bounds (width x) c0 c1) (\<lambda>v. v + delta))))
           (pixels x)\<rparr>"

definition py_sum :: "real list \<Rightarrow> real" where
  \<comment> \<open>\<open>sum(effects)\<close>: from 0, left to right\<close>
  "py_sum xs = foldl (+) 0 xs"

definition truediv :: "real \<Rightarrow> nat \<Rightarrow> error + real" where
  \<comment> \<open>\<open>x / n\<close> of a Python float by a Python integer\<close>
  "truediv x n = (if n = 0 then Inl ZeroDivisionError else Inr (x / real n))"

definition set_item :: "real list list \<Rightarrow> nat \<Rightarrow> nat \<Rightarrow> real \<Rightarrow> error + real list list" where
  \<comment> \<open>\<open>heatmap[i, j] = v\<close>\<close>
  "set_item h i j v =
     (if i < length h \<and> j < length (h ! i) then Inr (h[i := (h ! i)[j := v]])
      else Inl IndexError)"

definition torch_abs :: "real list list \<Rightarrow> real list list" where
  "torch_abs h = map (map abs) h"

definition torch_min :: "real list list \<Rightarrow> error + real" where
  \<comment> \<open>\<open>h.min()\<close>: the reduction of a tensor with no element is refused\<close>
  "torch_min h =
     (case concat h of [] \<Rightarrow> Inl RuntimeError | v # vs \<Rightarrow> Inr (fold min vs v))"

definition torch_max :: "real list list \<Rightarrow> error + real" where
  "torch_max h =
     (case concat h of [] \<Rightarrow> Inl RuntimeError | v # vs \<Rightarrow> Inr (fold max vs v))"

definition eps :: real where
  "eps = 1 / 10 ^ 8"

text \<open>
  \<open>F.interpolate(h, size=(H, W), mode='bilinear', align_corners=False)\<close> on a
  \<open>[1, 1, nh, nw]\<close> tensor, after the tensor library's kernel: the source
  coordinate of output index \<open>d\<close> is \<open>scale * (d + 0.5) - 0.5\<close> with
  \<open>scale = in / out\<close>, cut at 0; its floor (at most \<open>in - 1\<close>) is the first
  source index, the next index (if there is one) the second, and the
  fractional part the weight of the second.
\<close>

definition source_index :: "nat \<Rightarrow> nat \<Rightarrow> nat \<Rightarrow> real" where
  "source_index n_in n_out d = max 0 (real n_in / real n_out * (real d + 1 / 2) - 1 / 2)"

definition index_and_lambda :: "nat \<Rightarrow> nat \<Rightarrow> nat \<Rightarrow> nat \<times> nat \<times> real \<times> real" where
  "index_and_lambda n_in n_out d =
     (let src = source_index n_in n_out d;
          i0 = min (nat \<lfloor>src\<rfloor>) (n_in - 1);
          lambda1 = min (max (src - real i0) 0) 1;
          i1 = i0 + (if i0 < n_in - 1 then 1 else 0)
      in (i0, i1, 1 - lambda1, lambda1))"

definition bilinear_at :: "real list list \<Rightarrow> nat \<Rightarrow> nat \<Rightarrow> nat \<Rightarrow> nat \<Rightarrow> nat \<Rightarrow> nat \<Rightarrow> real" where
  "bilinear_at h nh nw H W y x =
     (case index_and_lambda nh H y of
        (y0, y1, h0, h1) \<Rightarrow>
          (case index_and_lambda nw W x of
             (x0, x1, w0, w1) \<Rightarrow>
               h0 * (w0 * h ! y0 ! x0 + w1 * h ! y0 ! x1)
               + h1 * (w0 * h ! y1 ! x0 + w1 * h ! y1 ! x1)))"

definition interpolate_bilinear :: "real list list \<Rightarrow> nat \<Rightarrow> nat \<Rightarrow> error + real list list" where
  "interpolate_bilinear h H W =
     (let nh = length h; nw = (case h of [] \<Rightarrow> 0 | r # _ \<Rightarrow> length r)
      in if nh = 0 \<or> nw = 0 \<or> H = 0 \<or> W = 0 then Inl RuntimeError
         else Inr (map (\<lambda>y. map (\<lambda>x. bilinear_at h nh nw H W y x) [0..<W]) [0..<H]))"

definition squeeze :: "nat \<Rightarrow> nat \<Rightarrow> real list list \<Rightarrow> tensor" where
  \<comment> \<open>\<open>t.squeeze()\<close> of a \<open>[1, 1, H, W]\<close> tensor: every dimension of size 1 goes\<close>
  "squeeze H W rows = \<lparr>shape = filter (\<lambda>d. d \<noteq> 1) [1, 1, H, W], elems = concat rows\<rparr>"

subsection \<open>\<open>generate_attribution\<close>\<close>

text \<open>A \<open>for\<close> loop over a list that carries a value and stops at the first exception.\<close>

fun for_each :: "'a list \<Rightarrow> ('a \<Rightarrow> 'b \<Rightarrow> ('s, 'b) prog) \<Rightarrow> 'b \<Rightarrow> ('s, 'b) prog" where
  "for_each [] body acc w = (Inr acc, w)"
| "for_each (x # xs) body acc w =
     (case body x acc w of
        (Inl e, w') \<Rightarrow> (Inl e, w')
      | (Inr acc', w') \<Rightarrow> for_each xs body acc' w')"

text \<open>
  Lines 48 to 61: one sample of one patch. The division by \<open>delta\<close> is the
  division of \<open>real\<close>; with \<open>delta = 0\<close> the code divides floats by zero (giving
  an infinity or NaN, no exception), which is outside the model.
\<close>

definition sample_step ::
  "'s model \<Rightarrow> int \<Rightarrow> nat \<Rightarrow> int \<Rightarrow> real \<Rightarrow> real \<Rightarrow> nat \<Rightarrow> nat \<Rightarrow> nat \<Rightarrow> real list
     \<Rightarrow> ('s, real list) prog" where
  "sample_step m predicted_class img patch_size delta orig_prob i j s effects w =
     (case clone img w of
        (perturbed_image, w1) \<Rightarrow>
          (let w2 = w1\<lparr>tensors := (tensors w1)
                       [perturbed_image :=
                          add_to_slice (int i * patch_size) ((int i + 1) * patch_size)
                            (int j * patch_size) ((int j + 1) * patch_size) delta
                            (tensors w1 ! perturbed_image)]\<rparr>
           in case call_model m perturbed_image w2 of
                (out, w3) \<Rightarrow>
                  (case target_prob out predicted_class of
                     Inl e \<Rightarrow> (Inl e, w3)
                   | Inr new_prob \<Rightarrow>
                       (Inr (effects @ [(new_prob - orig_prob) / delta]), w3))))"

text \<open>Lines 46 to 64: one patch.\<close>

definition patch_step ::
  "'s model \<Rightarrow> int \<Rightarrow> nat \<Rightarrow> int \<Rightarrow> int \<Rightarrow> real \<Rightarrow> real \<Rightarrow> nat \<times> nat \<Rightarrow> real list list
     \<Rightarrow> ('s, real list list) prog" where
  "patch_step m predicted_class img patch_size num_samples delta orig_prob p heatmap w =
     (case for_each (py_range num_samples)
             (sample_step m predicted_class img patch_size delta orig_prob (fst p) (snd p))
             [] w of
        (Inl e, w') \<Rightarrow> (Inl e, w')
      | (Inr effects, w') \<Rightarrow>
          (case truediv (py_sum effects) (length effects) of
             Inl e \<Rightarrow> (Inl e, w')
           | Inr v \<Rightarrow>
               (case set_item heatmap (fst p) (snd p) v of
                  Inl e \<Rightarrow> (Inl e, w')
                | Inr heatmap' \<Rightarrow> (Inr heatmap', w'))))"

text \<open>Lines 44 to 64: the two loops over the patch grid, rows outside, columns inside.\<close>

definition patch_loops ::
  "'s model \<Rightarrow> int \<Rightarrow> nat \<Rightarrow> int \<Rightarrow> int \<Rightarrow> real \<Rightarrow> real \<Rightarrow> int \<Rightarrow> int \<Rightarrow> real list list
     \<Rightarrow> ('s, real list list) prog" where
  "patch_loops m predicted_class img patch_size num_samples delta orig_prob
       num_patches_h num_patches_w heatmap =
     for_each (py_range num_patches_h)
       (\<lambda>i. for_each (py_range num_patches_w)
              (\<lambda>j. patch_step m predicted_class img patch_size num_samples delta orig_prob (i, j)))
       heatmap"

text \<open>
  Lines 27 to 41: evaluation mode, the forward pass on the image itself, the
  probability of the class, the size of the patch grid and the empty heatmap.
\<close>

definition baseline ::
  "nat \<Rightarrow> int \<Rightarrow> 's model \<Rightarrow> int
     \<Rightarrow> ('s, real \<times> nat \<times> nat \<times> int \<times> int \<times> real list list) prog" where
  "baseline img predicted_class m patch_size w0 =
     (let w1 = w0\<lparr>model_state := eval_mode m (model_state w0)\<rparr>
      in case call_model m img w1 of
           (output, w2) \<Rightarrow>
             (case target_prob output predicted_class of
                Inl e \<Rightarrow> (Inl e, w2)
              | Inr orig_prob \<Rightarrow>
                  (let H = height (tensors w2 ! img); W = width (tensors w2 ! img)
                   in case floordiv (int H) patch_size of
                        Inl e \<Rightarrow> (Inl e, w2)
                      | Inr num_patches_h \<Rightarrow>
                          (case floordiv (int W) patch_size of
                             Inl e \<Rightarrow> (Inl e, w2)
                           | Inr num_patches_w \<Rightarrow>
                               (case zeros num_patches_h num_patches_w of
                                  Inl e \<Rightarrow> (Inl e, w2)
                                | Inr heatmap \<Rightarrow>
                                    (Inr (orig_prob, H, W, num_patches_h, num_patches_w,
                                          heatmap), w2))))))"

text \<open>Lines 27 to 64: the heatmap with one averaged effect per patch, before line 67.\<close>

definition patch_sensitivities ::
  "nat \<Rightarrow> int \<Rightarrow> 's model \<Rightarrow> int \<Rightarrow> int \<Rightarrow> real
     \<Rightarrow> ('s, real list list \<times> nat \<times> nat) prog" where
  "patch_sensitivities img predicted_class m patch_size num_samples delta w0 =
     (case baseline img predicted_class m patch_size w0 of
        (Inl e, w) \<Rightarrow> (Inl e, w)
      | (Inr (orig_prob, H, W, num_patches_h, num_patches_w, heatmap), w) \<Rightarrow>
          (case patch_loops m predicted_class img patch_size num_samples delta orig_prob
                  num_patches_h num_patches_w heatmap w of
             (Inl e, w') \<Rightarrow> (Inl e, w')
           | (Inr heatmap', w') \<Rightarrow> (Inr (heatmap', H, W), w')))"

text \<open>Lines 67 to 74: absolute value and min-max normalisation.\<close>

definition normalize :: "real list list \<Rightarrow> error + real list list" where
  "normalize heatmap0 =
     (let heatmap = torch_abs heatmap0
      in case torch_min heatmap of
           Inl e \<Rightarrow> Inl e
         | Inr heat_min \<Rightarrow>
             (case torch_max heatmap of
                Inl e \<Rightarrow> Inl e
              | Inr heat_max \<Rightarrow>
                  (if heat_max - heat_min > eps
                   then Inr (map (map (\<lambda>v. (v - heat_min) / (heat_max - heat_min))) heatmap)
                   else Inr (map (map (\<lambda>v. 0)) heatmap))))"

text \<open>Lines 77 to 79: upsampling to the size of the image.\<close>

definition upsample :: "real list list \<Rightarrow> nat \<Rightarrow> nat \<Rightarrow> error + tensor" where
  "upsample heatmap H W =
     (case interpolate_bilinear heatmap H W of
        Inl e \<Rightarrow> Inl e
      | Inr rows \<Rightarrow> Inr (squeeze H W rows))"

definition generate_attribution ::
  "nat \<Rightarrow> int \<Rightarrow> 's model \<Rightarrow> int \<Rightarrow> int \<Rightarrow> real \<Rightarrow> ('s, tensor) prog" where
  "generate_attribution img predicted_class m patch_size num_samples delta w0 =
     (case patch_sensitivities img predicted_class m patch_size num_samples delta w0 of
        (Inl e, w) \<Rightarrow> (Inl e, w)
      | (Inr (heatmap, H, W), w) \<Rightarrow>
          (case normalize heatmap of
             Inl e \<Rightarrow> (Inl e, w)
           | Inr heatmap' \<Rightarrow> (upsample heatmap' H W, w)))"

subsection \<open>What the specification says, for comparison with the code\<close>

text \<open>
  The preconditions of the specification on the scoring function: it does not
  write into its input; its result (and what it leaves in its input) does not
  depend on hidden state; the class is an index of the probability vector it
  returns.
\<close>

definition no_input_write :: "'s model \<Rightarrow> bool" where
  "no_input_write m = (\<forall>s x. fst (snd (forward m s x)) = x)"

definition deterministic :: "'s model \<Rightarrow> bool" where
  "deterministic m =
     (\<forall>s s' x. fst (forward m s x) = fst (forward m s' x)
               \<and> fst (snd (forward m s x)) = fst (snd (forward m s' x)))"

definition class_ok :: "'s model \<Rightarrow> int \<Rightarrow> bool" where
  "class_ok m k = (\<forall>s x. \<exists>p. target_prob (fst (forward m s x)) k = Inr p)"

text \<open>\<open>score_fn(x)[target_class]\<close> when the model is in state \<open>s\<close>, and the state after the call.\<close>

definition score :: "'s model \<Rightarrow> int \<Rightarrow> 's \<Rightarrow> image_tensor \<Rightarrow> real" where
  "score m k s x = (case target_prob (fst (forward m s x)) k of Inr p \<Rightarrow> p | Inl e \<Rightarrow> 0)"

definition next_state :: "'s model \<Rightarrow> 's \<Rightarrow> image_tensor \<Rightarrow> 's" where
  "next_state m s x = snd (snd (forward m s x))"

definition left_in_input :: "'s model \<Rightarrow> 's \<Rightarrow> image_tensor \<Rightarrow> image_tensor" where
  "left_in_input m s x = fst (snd (forward m s x))"

text \<open>
  The patch region \<open>[i*patch_size:(i+1)*patch_size, j*patch_size:(j+1)*patch_size]\<close>
  and the perturbed image: a copy of the image with \<open>delta\<close> added to every
  pixel of the region, in every batch entry and channel.
\<close>

definition in_patch :: "nat \<Rightarrow> nat \<Rightarrow> nat \<Rightarrow> nat \<Rightarrow> nat \<Rightarrow> bool" where
  "in_patch patch_size i j y x =
     (i * patch_size \<le> y \<and> y < (i + 1) * patch_size
      \<and> j * patch_size \<le> x \<and> x < (j + 1) * patch_size)"

definition spec_perturbed :: "image_tensor \<Rightarrow> nat \<Rightarrow> real \<Rightarrow> nat \<times> nat \<Rightarrow> image_tensor" where
  "spec_perturbed img patch_size delta p =
     img\<lparr>pixels :=
           map (map (\<lambda>plane.
                  map (\<lambda>y. map (\<lambda>x. plane ! y ! x
                                     + (if in_patch patch_size (fst p) (snd p) y x then delta else 0))
                             [0..<width img])
                    [0..<height img]))
             (pixels img)\<rparr>"

text \<open>
  The patch indices in the order of the two loops (row-major), and those
  visited before patch \<open>(i, j)\<close>.
\<close>

definition patch_indices :: "nat \<Rightarrow> nat \<Rightarrow> (nat \<times> nat) list" where
  "patch_indices nh nw = concat (map (\<lambda>i. map (Pair i) [0..<nw]) [0..<nh])"

definition patches_before :: "nat \<Rightarrow> nat \<times> nat \<Rightarrow> (nat \<times> nat) list" where
  "patches_before nw p = patch_indices (fst p) nw @ map (Pair (fst p)) [0..<snd p]"

text \<open>
  \<open>num_samples\<close> successive forward passes on the same perturbed image, from
  model state \<open>s\<close>: the probabilities of the class, and the state afterwards.
\<close>

fun repeat_score :: "'s model \<Rightarrow> int \<Rightarrow> image_tensor \<Rightarrow> nat \<Rightarrow> 's \<Rightarrow> real list \<times> 's" where
  "repeat_score m k x 0 s = ([], s)"
| "repeat_score m k x (Suc n) s =
     (case repeat_score m k x n (next_state m s x) of
        (probs, s') \<Rightarrow> (score m k s x # probs, s'))"

text \<open>
  The elementary effects of one patch and their average; the state of the
  model after the samples of a list of patches.
\<close>

definition average_effect :: "real \<Rightarrow> real \<Rightarrow> real list \<Rightarrow> real" where
  "average_effect p0 delta probs =
     sum_list (map (\<lambda>p. (p - p0) / delta) probs) / real (length probs)"

definition state_after_patches ::
  "'s model \<Rightarrow> int \<Rightarrow> image_tensor \<Rightarrow> nat \<Rightarrow> nat \<Rightarrow> real \<Rightarrow> (nat \<times> nat) list \<Rightarrow> 's \<Rightarrow> 's" where
  "state_after_patches m k img patch_size num_samples delta ps s =
     fold (\<lambda>p s. snd (repeat_score m k (spec_perturbed img patch_size delta p) num_samples s)) ps s"

text \<open>
  A scoring function that returns the same probability vector whatever its
  input and state.
\<close>

definition constant_scores :: "'s model \<Rightarrow> bool" where
  "constant_scores m =
     (\<forall>s s' x x'. map softmax (fst (forward m s x)) = map softmax (fst (forward m s' x')))"

subsection \<open>Visiting the patches in another order\<close>

text \<open>The order of lines 44 and 45: rows outside, columns inside.\<close>

definition row_major :: "int \<Rightarrow> int \<Rightarrow> (nat \<times> nat) list" where
  "row_major num_patches_h num_patches_w =
     concat (map (\<lambda>i. map (Pair i) (py_range num_patches_w)) (py_range num_patches_h))"

text \<open>
  \<open>generate_attribution\<close> with the two loops of lines 44 and 45 replaced by one
  loop over the patch indices in the order \<open>order num_patches_h num_patches_w\<close>;
  the body of the loop and everything around it are those of the code.
\<close>

definition patch_sensitivities_in_order ::
  "(int \<Rightarrow> int \<Rightarrow> (nat \<times> nat) list) \<Rightarrow> nat \<Rightarrow> int \<Rightarrow> 's model \<Rightarrow> int \<Rightarrow> int \<Rightarrow> real
     \<Rightarrow> ('s, real list list \<times> nat \<times> nat) prog" where
  "patch_sensitivities_in_order order img predicted_class m patch_size num_samples delta w0 =
     (case baseline img predicted_class m patch_size w0 of
        (Inl e, w) \<Rightarrow> (Inl e, w)
      | (Inr (orig_prob, H, W, num_patches_h, num_patches_w, heatmap), w) \<Rightarrow>
          (case for_each (order num_patches_h num_patches_w)
                  (patch_step m predicted_class img patch_size num_samples delta orig_prob)
                  heatmap w of
             (Inl e, w') \<Rightarrow> (Inl e, w')
           | (Inr heatmap', w') \<Rightarrow> (Inr (heatmap', H, W), w')))"

definition generate_attribution_in_order ::
  "(int \<Rightarrow> int \<Rightarrow> (nat \<times> nat) list) \<Rightarrow> nat \<Rightarrow> int \<Rightarrow> 's model \<Rightarrow> int \<Rightarrow> int \<Rightarrow> real
     \<Rightarrow> ('s, tensor) prog" where
  "generate_attribution_in_order order img predicted_class m patch_size num_samples delta w0 =
     (case patch_sensitivities_in_order order img predicted_class m patch_size num_samples
             delta w0 of
        (Inl e, w) \<Rightarrow> (Inl e, w)
      | (Inr (heatmap, H, W), w) \<Rightarrow>
          (case normalize heatmap of
             Inl e \<Rightarrow> (Inl e, w)
           | Inr heatmap' \<Rightarrow> (upsample heatmap' H W, w)))"

subsection \<open>Notions used in the proofs\<close>

text \<open>The tensor that lines 49 and 52 build for patch \<open>p\<close> from the image \<open>x\<close>.\<close>

definition perturbed_of :: "image_tensor \<Rightarrow> int \<Rightarrow> real \<Rightarrow> nat \<times> nat \<Rightarrow> image_tensor" where
  "perturbed_of x patch_size delta p =
     add_to_slice (int (fst p) * patch_size) ((int (fst p) + 1) * patch_size)
       (int (snd p) * patch_size) ((int (snd p) + 1) * patch_size) delta x"

text \<open>The tensors \<open>T\<close> that existed at some earlier point are still there, unchanged.\<close>

definition kept :: "image_tensor list \<Rightarrow> 's world \<Rightarrow> bool" where
  "kept T w = (length T \<le> length (tensors w) \<and> take (length T) (tensors w) = T)"

text \<open>
  The value lines 46 to 64 compute for patch \<open>p\<close> when the model is in state
  \<open>s\<close>, and the state they leave the model in.
\<close>

definition effect_of ::
  "'s model \<Rightarrow> int \<Rightarrow> image_tensor \<Rightarrow> int \<Rightarrow> int \<Rightarrow> real \<Rightarrow> real \<Rightarrow> nat \<times> nat \<Rightarrow> 's \<Rightarrow> real" where
  "effect_of m k x patch_size num_samples delta p0 p s =
     average_effect p0 delta
       (fst (repeat_score m k (perturbed_of x patch_size delta p) (nat num_samples) s))"

definition state_of ::
  "'s model \<Rightarrow> int \<Rightarrow> image_tensor \<Rightarrow> int \<Rightarrow> int \<Rightarrow> real \<Rightarrow> nat \<times> nat \<Rightarrow> 's \<Rightarrow> 's" where
  "state_of m k x patch_size num_samples delta p s =
     snd (repeat_score m k (perturbed_of x patch_size delta p) (nat num_samples) s)"

text \<open>Writing cell \<open>p\<close> of a grid; a grid of \<open>nh\<close> rows of \<open>nw\<close> values.\<close>

definition put :: "real list list \<Rightarrow> nat \<times> nat \<Rightarrow> real \<Rightarrow> real list list" where
  "put h p v = h[fst p := (h ! fst p)[snd p := v]]"

definition has_shape :: "nat \<Rightarrow> nat \<Rightarrow> real list list \<Rightarrow> bool" where
  "has_shape nh nw h = (length h = nh \<and> (\<forall>r \<in> set h. length r = nw))"

text \<open>One round of the loop over the patches, on the grid and the state of the model.\<close>

definition grid_step ::
  "'s model \<Rightarrow> int \<Rightarrow> image_tensor \<Rightarrow> int \<Rightarrow> int \<Rightarrow> real \<Rightarrow> real \<Rightarrow> nat \<times> nat
     \<Rightarrow> real list list \<times> 's \<Rightarrow> real list list \<times> 's" where
  "grid_step m k x patch_size num_samples delta p0 p =
     (\<lambda>(h, s). (put h p (effect_of m k x patch_size num_samples delta p0 p s),
                state_of m k x patch_size num_samples delta p s))"

text \<open>The grid after line 64, for an image \<open>x\<close> and a model in state \<open>s\<close> at line 32.\<close>

definition raw_grid ::
  "'s model \<Rightarrow> int \<Rightarrow> image_tensor \<Rightarrow> int \<Rightarrow> int \<Rightarrow> real \<Rightarrow> 's \<Rightarrow> real list list" where
  "raw_grid m k x patch_size num_samples delta s =
     fst (fold (grid_step m k x patch_size num_samples delta (score m k s x))
            (patch_indices (height x div nat patch_size) (width x div nat patch_size))
            (replicate (height x div nat patch_size) (replicate (width x div nat patch_size) 0),
             next_state m s x))"

text \<open>The absolute values of the entries of a grid.\<close>

definition abs_values :: "real list list \<Rightarrow> real set" where
  "abs_values h = set (map abs (concat h))"

text \<open>Two worlds that hold the same image at reference \<open>img\<close>.\<close>

definition same_image :: "nat \<Rightarrow> 's world \<Rightarrow> 's world \<Rightarrow> bool" where
  "same_image img w w' =
     (img < length (tensors w) \<and> img < length (tensors w')
      \<and> tensors w ! img = tensors w' ! img)"

text \<open>The tensors \<open>T\<close> are unchanged and every tensor created since is one of \<open>A\<close>.\<close>

definition clones_only :: "image_tensor list \<Rightarrow> image_tensor set \<Rightarrow> 's world \<Rightarrow> bool" where
  "clones_only T A w = (kept T w \<and> set (drop (length T) (tensors w)) \<subseteq> A)"

subsection \<open>Concrete models and images\<close>

text \<open>
  A model that returns the same logits for every input and counts its calls;
  a model whose logit for class 0 depends on one pixel only; and a model whose
  logit for class 0 depends on that pixel and on the number of calls made so
  far (its state). The images have shape \<open>[1, 3, H, W]\<close>, with the same values
  in the three channels.
\<close>

definition counting_model :: "nat model" where
  "counting_model = \<lparr>eval_mode = (\<lambda>s. s), forward = (\<lambda>s x. ([[0, 0]], x, Suc s))\<rparr>"

definition pixel_model :: "nat model" where
  "pixel_model =
     \<lparr>eval_mode = (\<lambda>s. s),
      forward = (\<lambda>s x. ([[ln (1 + pixels x ! 0 ! 0 ! 0 ! 1), 0]], x, Suc s))\<rparr>"

definition drifting_model :: "nat model" where
  "drifting_model =
     \<lparr>eval_mode = (\<lambda>s. s),
      forward = (\<lambda>s x. ([[ln (1 + real s + pixels x ! 0 ! 0 ! 0 ! 1), 0]], x, Suc s))\<rparr>"

definition img11 :: image_tensor where
  "img11 =
     \<lparr>batch = 1, channels = 3, height = 1, width = 1,
      pixels = [[[[1 / 2]], [[1 / 2]], [[1 / 2]]]]\<rparr>"

definition img12 :: image_tensor where
  "img12 =
     \<lparr>batch = 1, channels = 3, height = 1, width = 2,
      pixels = [[[[1 / 2, 1 / 4]], [[1 / 2, 1 / 4]], [[1 / 2, 1 / 4]]]]\<rparr>"

definition img22 :: image_tensor where
  "img22 =
     \<lparr>batch = 1, channels = 3, height = 2, width = 2,
      pixels = [[[[0, 1], [2, 3]], [[0, 1], [2, 3]], [[0, 1], [2, 3]]]]\<rparr>"

definition img33 :: image_tensor where
  "img33 =
     \<lparr>batch = 1, channels = 3, height = 3, width = 3,
      pixels = [[[[0, 1, 2], [3, 4, 5], [6, 7, 8]], [[0, 1, 2], [3, 4, 5], [6, 7, 8]],
                 [[0, 1, 2], [3, 4, 5], [6, 7, 8]]]]\<rparr>"

definition img230 :: image_tensor where
  "img230 =
     \<lparr>batch = 1, channels = 3, height = 230, width = 230,
      pixels = replicate 1 (replicate 3 (replicate 230 (replicate 230 0)))\<rparr>"

section \<open>Grad-CAM: the layer dispatch\<close>

subsection \<open>The dispatch\<close>

lemma select_layer_single:
  assumes "families model = [f]"
  shows "select_layer model = Inr (layer_of_family f)"
  using assms by (cases f) (simp_all add: select_layer_def isinstance_def)

lemma select_layer_unsupported:
  assumes "\<forall>f \<in> set eight_families. \<not> isinstance model f"
  shows "select_layer model
           = Inl (ValueError (''Unsupported model architecture: '' @ type_name model))"
  using assms by (simp add: select_layer_def eight_families_def)

lemma select_layer_supported:
  assumes "isinstance model f"
  shows "\<exists>l. select_layer model = Inr l"
  using assms by (cases f) (auto simp: select_layer_def)

text \<open>
  C10. With \<open>target_layer\<close> \<open>None\<close>: a model of one of the eight classes
  (ConvNeXt, EfficientNet, ResNet, VisionTransformer, SwinTransformer, RegNet,
  MobileNetV3, DenseNet, which are all the classes the chain knows) has its
  layer chosen by the table and the attribution library is called on that
  layer; a model that is an instance of none of them gets a \<open>ValueError\<close>
  whose message ends with the name of the model's type, and the attribution
  library is not called (its state is unchanged).
\<close>

theorem gradcam_layer_dispatch:
  "distinct eight_families \<and> length eight_families = 8
   \<and> set eight_families = (UNIV :: family set)
   \<and> (\<forall>f \<in> set eight_families. families model = [f] \<longrightarrow>
         gradcam_generate_attribution img cls model None attribute c
           = (Inr (fst (attribute c model (layer_of_family f) img cls)),
              snd (attribute c model (layer_of_family f) img cls)))
   \<and> ((\<exists>f \<in> set eight_families. isinstance model f) \<longrightarrow>
         (\<exists>l. select_layer model = Inr l
            \<and> gradcam_generate_attribution img cls model None attribute c
                = (Inr (fst (attribute c model l img cls)),
                   snd (attribute c model l img cls))))
   \<and> ((\<forall>f \<in> set eight_families. \<not> isinstance model f) \<longrightarrow>
         gradcam_generate_attribution img cls model None attribute c
           = (Inl (ValueError (''Unsupported model architecture: '' @ type_name model)), c))"
proof (intro conjI)
  show "distinct eight_families" by (simp add: eight_families_def)
  show "length eight_families = 8" by (simp add: eight_families_def)
  show "set eight_families = (UNIV :: family set)"
  proof
    show "(UNIV :: family set) \<subseteq> set eight_families"
    proof
      fix f :: family
      show "f \<in> set eight_families" by (cases f) (simp_all add: eight_families_def)
    qed
  qed simp
  show "\<forall>f \<in> set eight_families. families model = [f] \<longrightarrow>
         gradcam_generate_attribution img cls model None attribute c
           = (Inr (fst (attribute c model (layer_of_family f) img cls)),
              snd (attribute c model (layer_of_family f) img cls))"
    by (simp add: gradcam_generate_attribution_def select_layer_single
        split: prod.splits)
  show "(\<exists>f \<in> set eight_families. isinstance model f) \<longrightarrow>
         (\<exists>l. select_layer model = Inr l
            \<and> gradcam_generate_attribution img cls model None attribute c
                = (Inr (fst (attribute c model l img cls)),
                   snd (attribute c model l img cls)))"
  proof
    assume "\<exists>f \<in> set eight_families. isinstance model f"
    then obtain f where "isinstance model f" by blast
    then obtain l where l: "select_layer model = Inr l"
      using select_layer_supported by blast
    then show "\<exists>l. select_layer model = Inr l
            \<and> gradcam_generate_attribution img cls model None attribute c
                = (Inr (fst (attribute c model l img cls)),
                   snd (attribute c model l img cls))"
      by (simp add: gradcam_generate_attribution_def split: prod.splits)
  qed
  show "(\<forall>f \<in> set eight_families. \<not> isinstance model f) \<longrightarrow>
         gradcam_generate_attribution img cls model None attribute c
           = (Inl (ValueError (''Unsupported model architecture: '' @ type_name model)), c)"
    by (simp add: gradcam_generate_attribution_def select_layer_unsupported)
qed

text \<open>
  The theorem at three models: a ResNet, a subclass of both RegNet and DenseNet
  (the chain takes RegNet, which it tests first), and a class outside the
  eight, with an attribution library that counts its calls.
\<close>

theorem gradcam_layer_dispatch_witness:
  "gradcam_generate_attribution (0::nat) 3 \<lparr>type_name = ''ResNet'', families = [ResNet]\<rparr> None
       (\<lambda>c m l x k. (l, Suc c)) (0::nat) = (Inr Layer4_last, 1)
   \<and> gradcam_generate_attribution (0::nat) 3
       \<lparr>type_name = ''Hybrid'', families = [DenseNet, RegNet]\<rparr> None
       (\<lambda>c m l x k. (l, Suc c)) (0::nat) = (Inr Trunk_output, 1)
   \<and> gradcam_generate_attribution (0::nat) 3 \<lparr>type_name = ''VGG'', families = []\<rparr> None
       (\<lambda>c m l x k. (l, Suc c)) (0::nat)
       = (Inl (ValueError ''Unsupported model architecture: VGG''), 0)"
proof (intro conjI)
  have r: "ResNet \<in> set eight_families" by (simp add: eight_families_def)
  show "gradcam_generate_attribution (0::nat) 3 \<lparr>type_name = ''ResNet'', families = [ResNet]\<rparr> None
       (\<lambda>c m l x k. (l, Suc c)) (0::nat) = (Inr Layer4_last, 1)"
    using gradcam_layer_dispatch
      [of "\<lparr>type_name = ''ResNet'', families = [ResNet]\<rparr>" "0::nat" 3
          "\<lambda>c m l x k. (l, Suc c)" "0::nat"] r
    by simp
  have h: "\<exists>f \<in> set eight_families.
             isinstance \<lparr>type_name = ''Hybrid'', families = [DenseNet, RegNet]\<rparr> f"
    by (simp add: eight_families_def isinstance_def)
  have s: "select_layer \<lparr>type_name = ''Hybrid'', families = [DenseNet, RegNet]\<rparr>
             = Inr Trunk_output"
    by (simp add: select_layer_def isinstance_def)
  show "gradcam_generate_attribution (0::nat) 3
       \<lparr>type_name = ''Hybrid'', families = [DenseNet, RegNet]\<rparr> None
       (\<lambda>c m l x k. (l, Suc c)) (0::nat) = (Inr Trunk_output, 1)"
    using gradcam_layer_dispatch
      [of "\<lparr>type_name = ''Hybrid'', families = [DenseNet, RegNet]\<rparr>" "0::nat" 3
          "\<lambda>c m l x k. (l, Suc c)" "0::nat"] h s
    by auto
  have n: "\<forall>f \<in> set eight_families. \<not> isinstance \<lparr>type_name = ''VGG'', families = []\<rparr> f"
    by (simp add: isinstance_def)
  show "gradcam_generate_attribution (0::nat) 3 \<lparr>type_name = ''VGG'', families = []\<rparr> None
       (\<lambda>c m l x k. (l, Suc c)) (0::nat)
       = (Inl (ValueError ''Unsupported model architecture: VGG''), 0)"
    using gradcam_layer_dispatch
      [of "\<lparr>type_name = ''VGG'', families = []\<rparr>" "0::nat" 3
          "\<lambda>c m l x k. (l, Suc c)" "0::nat"] n
    by simp
qed

section \<open>Morris Sensitivity Analysis: properties\<close>

subsection \<open>Facts about the concrete models and images\<close>

lemma class_ok_counting: "class_ok counting_model 0"
proof -
  have "target_prob [[0, 0]] 0 = Inr (1 / 2)"
    by (simp add: target_prob_def py_index_def softmax_def)
  then have "\<exists>p. target_prob [[0, 0]] 0 = Inr p" by blast
  then show ?thesis by (simp add: class_ok_def counting_model_def)
qed

lemma class_ok_pixel: "class_ok pixel_model 0"
  by (simp add: class_ok_def pixel_model_def target_prob_def py_index_def softmax_def)

lemma class_ok_drifting: "class_ok drifting_model 0"
  by (simp add: class_ok_def drifting_model_def target_prob_def py_index_def softmax_def)

lemma no_input_write_counting: "no_input_write counting_model"
  by (simp add: no_input_write_def counting_model_def)

lemma no_input_write_pixel: "no_input_write pixel_model"
  by (simp add: no_input_write_def pixel_model_def)

lemma no_input_write_drifting: "no_input_write drifting_model"
  by (simp add: no_input_write_def drifting_model_def)

lemma constant_scores_counting: "constant_scores counting_model"
  by (simp add: constant_scores_def counting_model_def)

lemma deterministic_pixel: "deterministic pixel_model"
  by (simp add: deterministic_def pixel_model_def)

lemma wf_img22: "wf_image img22"
  by (simp add: wf_image_def img22_def)

lemma wf_img230: "wf_image img230"
  by (simp add: wf_image_def img230_def)

lemmas run_defs =
  generate_attribution_def patch_sensitivities_def baseline_def call_model_def
  target_prob_def py_index_def softmax_def floordiv_def zeros_def patch_loops_def py_range_def
  patch_step_def sample_step_def clone_def add_to_slice_def slice_bounds_def update_slice_def
  truediv_def py_sum_def set_item_def normalize_def torch_abs_def torch_min_def torch_max_def
  eps_def upsample_def interpolate_bilinear_def bilinear_at_def index_and_lambda_def
  source_index_def squeeze_def Let_def

lemma wf_img33: "wf_image img33"
  by (simp add: wf_image_def img33_def)

subsection \<open>Loops\<close>

lemma for_each_append:
  "for_each (xs @ ys) body acc w =
     (case for_each xs body acc w of
        (Inl e, w') \<Rightarrow> (Inl e, w')
      | (Inr acc', w') \<Rightarrow> for_each ys body acc' w')"
  by (induction xs arbitrary: acc w) (auto split: prod.splits sum.splits)

lemma for_each_map:
  "for_each (map h ys) body acc w = for_each ys (\<lambda>y. body (h y)) acc w"
  by (induction ys arbitrary: acc w) (auto split: prod.splits sum.splits)

lemma for_each_nested:
  "for_each xs (\<lambda>x. for_each (f x) (\<lambda>y. body (x, y))) acc w
     = for_each (concat (map (\<lambda>x. map (Pair x) (f x)) xs)) body acc w"
proof (induction xs arbitrary: acc w)
  case Nil
  show ?case by simp
next
  case (Cons x xs)
  show ?case
    by (simp add: for_each_append for_each_map Cons.IH split: prod.splits sum.splits)
qed

lemma for_each_invariant:
  assumes "\<And>x acc w. x \<in> set xs \<Longrightarrow> I w \<Longrightarrow> I (snd (body x acc w))"
    and "I w"
  shows "I (snd (for_each xs body acc w))"
  using assms
proof (induction xs arbitrary: acc w)
  case Nil
  then show ?case by simp
next
  case (Cons x xs)
  have 1: "I (snd (body x acc w))" using Cons.prems by simp
  show ?case
  proof (cases "body x acc w")
    case (Pair r w')
    with 1 have I': "I w'" by simp
    show ?thesis
    proof (cases r)
      case (Inl e)
      with Pair I' show ?thesis by simp
    next
      case (Inr acc')
      have "I (snd (for_each xs body acc' w'))"
        by (rule Cons.IH) (use Cons.prems I' in auto)
      with Pair Inr show ?thesis by simp
    qed
  qed
qed

text \<open>
  A loop whose body always succeeds computes a fold: \<open>f\<close> gives the carried
  value and \<open>g\<close> the abstract state (\<open>\<alpha>\<close> of the world) after one round.
\<close>

lemma for_each_fold:
  assumes step: "\<And>x acc w. x \<in> set xs \<Longrightarrow> I w \<Longrightarrow> P acc \<Longrightarrow>
            fst (body x acc w) = Inr (f x acc (\<alpha> w)) \<and> \<alpha> (snd (body x acc w)) = g x (\<alpha> w)
            \<and> I (snd (body x acc w)) \<and> P (f x acc (\<alpha> w))"
    and "I w" "P acc"
  shows "fst (for_each xs body acc w)
           = Inr (fst (fold (\<lambda>x (a, c). (f x a c, g x c)) xs (acc, \<alpha> w)))
         \<and> \<alpha> (snd (for_each xs body acc w))
           = snd (fold (\<lambda>x (a, c). (f x a c, g x c)) xs (acc, \<alpha> w))
         \<and> I (snd (for_each xs body acc w))
         \<and> P (fst (fold (\<lambda>x (a, c). (f x a c, g x c)) xs (acc, \<alpha> w)))"
  using assms
proof (induction xs arbitrary: acc w)
  case Nil
  then show ?case by simp
next
  case (Cons x xs)
  obtain r w' where b: "body x acc w = (r, w')" by (cases "body x acc w")
  have s: "r = Inr (f x acc (\<alpha> w))" "\<alpha> w' = g x (\<alpha> w)" "I w'" "P (f x acc (\<alpha> w))"
    using Cons.prems(1)[of x w acc] Cons.prems(2,3) b by auto
  have IH: "fst (for_each xs body (f x acc (\<alpha> w)) w')
           = Inr (fst (fold (\<lambda>x (a, c). (f x a c, g x c)) xs (f x acc (\<alpha> w), \<alpha> w')))
         \<and> \<alpha> (snd (for_each xs body (f x acc (\<alpha> w)) w'))
           = snd (fold (\<lambda>x (a, c). (f x a c, g x c)) xs (f x acc (\<alpha> w), \<alpha> w'))
         \<and> I (snd (for_each xs body (f x acc (\<alpha> w)) w'))
         \<and> P (fst (fold (\<lambda>x (a, c). (f x a c, g x c)) xs (f x acc (\<alpha> w), \<alpha> w')))"
    by (rule Cons.IH) (use Cons.prems(1) s in auto)
  show ?case using b s IH by simp
qed

text \<open>Two runs of a loop from related worlds.\<close>

lemma for_each_related:
  assumes "\<And>x acc w w'. x \<in> set xs \<Longrightarrow> R w w' \<Longrightarrow>
            fst (body x acc w) = fst (body x acc w') \<and> R (snd (body x acc w)) (snd (body x acc w'))"
    and "R w w'"
  shows "fst (for_each xs body acc w) = fst (for_each xs body acc w')
         \<and> R (snd (for_each xs body acc w)) (snd (for_each xs body acc w'))"
  using assms
proof (induction xs arbitrary: acc w w')
  case Nil
  then show ?case by simp
next
  case (Cons x xs)
  obtain r v where b: "body x acc w = (r, v)" by (cases "body x acc w")
  obtain r' v' where b': "body x acc w' = (r', v')" by (cases "body x acc w'")
  have s: "r = r'" "R v v'" using Cons.prems(1)[of x w w' acc] Cons.prems(2) b b' by auto
  show ?case
  proof (cases r)
    case (Inl e)
    then have "r' = Inl e" using s by simp
    with b b' s Inl show ?thesis by simp
  next
    case (Inr acc')
    then have r': "r' = Inr acc'" using s by simp
    have "fst (for_each xs body acc' v) = fst (for_each xs body acc' v')
         \<and> R (snd (for_each xs body acc' v)) (snd (for_each xs body acc' v'))"
      by (rule Cons.IH) (use Cons.prems(1) s in auto)
    with b b' s Inr r' show ?thesis by simp
  qed
qed

lemma target_prob_score:
  assumes "class_ok m k"
  shows "target_prob (fst (forward m s x)) k = Inr (score m k s x)"
proof -
  obtain p where "target_prob (fst (forward m s x)) k = Inr p"
    using assms unfolding class_ok_def by blast
  then show ?thesis by (simp add: score_def)
qed

lemma sample_step_result:
  assumes "class_ok m k" and "img < length (tensors w)"
  shows "sample_step m k img patch_size delta p0 i j n effects w
           = (Inr (effects @ [(score m k (model_state w)
                                 (perturbed_of (tensors w ! img) patch_size delta (i, j)) - p0) / delta]),
              \<lparr>tensors = tensors w
                 @ [left_in_input m (model_state w)
                      (perturbed_of (tensors w ! img) patch_size delta (i, j))],
               model_state = next_state m (model_state w)
                      (perturbed_of (tensors w ! img) patch_size delta (i, j))\<rparr>)"
proof -
  let ?X = "perturbed_of (tensors w ! img) patch_size delta (i, j)"
  obtain out x' s' where f: "forward m (model_state w) ?X = (out, x', s')"
    by (cases "forward m (model_state w) ?X")
  have tp: "target_prob out k = Inr (score m k (model_state w) ?X)"
    using target_prob_score[OF assms(1), of "model_state w" ?X] f by simp
  show ?thesis
    using f tp
    by (simp add: sample_step_def clone_def call_model_def Let_def perturbed_of_def
        next_state_def left_in_input_def)
qed

text \<open>A sample never fails for another reason than the index of the class, and never
  touches a tensor that existed before it.\<close>

lemma sample_step_keeps:
  assumes "img < length (tensors w)"
  shows "take (length (tensors w)) (tensors (snd (sample_step m k img patch_size delta p0 i j n effects w)))
           = tensors w"
  using assms
  by (simp add: sample_step_def clone_def call_model_def Let_def
      split: prod.splits sum.splits)

lemma kept_nth:
  assumes "kept T w" "img < length T"
  shows "img < length (tensors w)" "tensors w ! img = T ! img"
proof -
  have t: "take (length T) (tensors w) = T" and "length T \<le> length (tensors w)"
    using assms(1) by (simp_all add: kept_def)
  with assms(2) show "img < length (tensors w)" by simp
  show "tensors w ! img = T ! img"
    using t assms(2) by (metis nth_take)
qed

lemma kept_self: "kept (tensors w) w"
  by (simp add: kept_def)

lemma length_repeat_score: "length (fst (repeat_score m k x n s)) = n"
proof (induction n arbitrary: s)
  case 0
  show ?case by simp
next
  case (Suc n)
  obtain probs s' where r: "repeat_score m k x n (next_state m s x) = (probs, s')"
    by (cases "repeat_score m k x n (next_state m s x)")
  have "length probs = n" using Suc[of "next_state m s x"] r by simp
  with r show ?case by simp
qed

lemma foldl_plus: "foldl (+) a xs = a + sum_list (xs :: real list)"
  by (induction xs arbitrary: a) auto

lemma py_sum_sum_list: "py_sum xs = sum_list xs"
  by (simp add: py_sum_def foldl_plus)

lemma sample_loop_result:
  assumes "class_ok m k" and "img < length T" and "kept T w"
  shows "fst (for_each xs (sample_step m k img patch_size delta p0 i j) effects w)
           = Inr (effects @ map (\<lambda>p. (p - p0) / delta)
                   (fst (repeat_score m k (perturbed_of (T ! img) patch_size delta (i, j))
                          (length xs) (model_state w))))
         \<and> model_state (snd (for_each xs (sample_step m k img patch_size delta p0 i j) effects w))
           = snd (repeat_score m k (perturbed_of (T ! img) patch_size delta (i, j))
                          (length xs) (model_state w))
         \<and> kept T (snd (for_each xs (sample_step m k img patch_size delta p0 i j) effects w))"
  using assms(3)
proof (induction xs arbitrary: effects w)
  case Nil
  then show ?case by simp
next
  case (Cons a xs)
  let ?X = "perturbed_of (T ! img) patch_size delta (i, j)"
  let ?w' = "\<lparr>tensors = tensors w @ [left_in_input m (model_state w) ?X],
              model_state = next_state m (model_state w) ?X\<rparr>"
  have n: "img < length (tensors w)" "tensors w ! img = T ! img"
    using kept_nth[OF Cons.prems assms(2)] by auto
  have st: "sample_step m k img patch_size delta p0 i j a effects w
           = (Inr (effects @ [(score m k (model_state w) ?X - p0) / delta]), ?w')"
    using sample_step_result[OF assms(1) n(1), of patch_size delta p0 i j a effects] n(2)
    by simp
  have k': "kept T ?w'"
    using Cons.prems by (simp add: kept_def)
  show ?case
    using Cons.IH[OF k', of "effects @ [(score m k (model_state w) ?X - p0) / delta]"] st
    by (simp split: prod.splits)
qed

lemma patch_step_result:
  assumes "class_ok m k" and "img < length T" and "kept T w" and "0 < num_samples"
    and "fst p < length h" and "snd p < length (h ! fst p)"
  shows "fst (patch_step m k img patch_size num_samples delta p0 p h w)
           = Inr (put h p (effect_of m k (T ! img) patch_size num_samples delta p0 p (model_state w)))
         \<and> model_state (snd (patch_step m k img patch_size num_samples delta p0 p h w))
           = state_of m k (T ! img) patch_size num_samples delta p (model_state w)
         \<and> kept T (snd (patch_step m k img patch_size num_samples delta p0 p h w))"
proof -
  let ?loop = "for_each (py_range num_samples)
                 (sample_step m k img patch_size delta p0 (fst p) (snd p)) [] w"
  let ?probs = "fst (repeat_score m k (perturbed_of (T ! img) patch_size delta p)
                       (nat num_samples) (model_state w))"
  have l: "fst ?loop = Inr (map (\<lambda>p. (p - p0) / delta) ?probs)"
      "model_state (snd ?loop)
         = snd (repeat_score m k (perturbed_of (T ! img) patch_size delta p)
                  (nat num_samples) (model_state w))"
      "kept T (snd ?loop)"
    using sample_loop_result[OF assms(1,2,3), of "py_range num_samples" patch_size delta p0
        "fst p" "snd p" "[]"]
    by (simp_all add: py_range_def)
  obtain r w' where lw: "?loop = (r, w')" by (cases ?loop)
  have r: "r = Inr (map (\<lambda>p. (p - p0) / delta) ?probs)" using l(1) lw by simp
  have len: "length ?probs = nat num_samples" by (rule length_repeat_score)
  have pos: "nat num_samples \<noteq> 0" using assms(4) by simp
  show ?thesis
    using lw r l(2,3) len pos assms(5,6)
    by (simp add: patch_step_def truediv_def set_item_def py_sum_sum_list put_def effect_of_def
        state_of_def average_effect_def)
qed

subsection \<open>Writing one cell of the heatmap\<close>

lemma put_same:
  assumes "fst p < length h" "snd p < length (h ! fst p)"
  shows "put h p v ! fst p ! snd p = v"
  using assms by (simp add: put_def)

lemma put_other:
  assumes "q \<noteq> p"
  shows "put h p v ! fst q ! snd q = h ! fst q ! snd q"
proof (cases "fst q = fst p")
  case False
  then show ?thesis by (simp add: put_def)
next
  case True
  then have ne: "snd q \<noteq> snd p" using assms by (auto simp: prod_eq_iff)
  show ?thesis
  proof (cases "fst p < length h")
    case True
    with \<open>fst q = fst p\<close> ne show ?thesis by (simp add: put_def)
  next
    case False
    then have "h[fst p := (h ! fst p)[snd p := v]] = h"
      by (intro list_update_beyond) simp
    then show ?thesis by (simp add: put_def)
  qed
qed

lemma has_shape_put:
  assumes "has_shape nh nw h"
  shows "has_shape nh nw (put h p v)"
proof (cases "fst p < length h")
  case False
  then have "h[fst p := (h ! fst p)[snd p := v]] = h"
    by (intro list_update_beyond) simp
  then show ?thesis using assms by (simp add: put_def)
next
  case True
  have "length r = nw" if "r \<in> set (h[fst p := (h ! fst p)[snd p := v]])" for r
  proof -
    have "r \<in> insert ((h ! fst p)[snd p := v]) (set h)"
      using that set_update_subset_insert[of h "fst p" "(h ! fst p)[snd p := v]"] by blast
    then have "r = (h ! fst p)[snd p := v] \<or> r \<in> set h" by simp
    then show ?thesis
    proof
      assume "r = (h ! fst p)[snd p := v]"
      moreover have "length (h ! fst p) = nw"
        using assms True by (simp add: has_shape_def)
      ultimately show ?thesis by simp
    next
      assume "r \<in> set h"
      then show ?thesis using assms by (simp add: has_shape_def)
    qed
  qed
  then show ?thesis using assms by (simp add: has_shape_def put_def)
qed

subsection \<open>The loops over the patches\<close>

lemma patch_list_result:
  assumes "class_ok m k" and "img < length T" and "kept T w" and "0 < num_samples"
    and "has_shape nh nw h" and "\<forall>p \<in> set ps. fst p < nh \<and> snd p < nw"
  shows "fst (for_each ps (patch_step m k img patch_size num_samples delta p0) h w)
           = Inr (fst (fold (grid_step m k (T ! img) patch_size num_samples delta p0) ps
                        (h, model_state w)))
         \<and> model_state (snd (for_each ps (patch_step m k img patch_size num_samples delta p0) h w))
           = snd (fold (grid_step m k (T ! img) patch_size num_samples delta p0) ps
                        (h, model_state w))
         \<and> kept T (snd (for_each ps (patch_step m k img patch_size num_samples delta p0) h w))
         \<and> has_shape nh nw (fst (fold (grid_step m k (T ! img) patch_size num_samples delta p0) ps
                        (h, model_state w)))"
proof -
  have step: "fst (patch_step m k img patch_size num_samples delta p0 p a v)
            = Inr (put a p (effect_of m k (T ! img) patch_size num_samples delta p0 p (model_state v)))
          \<and> model_state (snd (patch_step m k img patch_size num_samples delta p0 p a v))
            = state_of m k (T ! img) patch_size num_samples delta p (model_state v)
          \<and> kept T (snd (patch_step m k img patch_size num_samples delta p0 p a v))
          \<and> has_shape nh nw
              (put a p (effect_of m k (T ! img) patch_size num_samples delta p0 p (model_state v)))"
    if "p \<in> set ps" "kept T v" "has_shape nh nw a" for p a v
  proof -
    have b: "fst p < length a" "snd p < length (a ! fst p)"
      using that(1,3) assms(6) by (auto simp: has_shape_def)
    show ?thesis
      using patch_step_result[OF assms(1,2) that(2) assms(4) b] has_shape_put[OF that(3)]
      by simp
  qed
  have "grid_step m k (T ! img) patch_size num_samples delta p0
          = (\<lambda>p (a, c). (put a p (effect_of m k (T ! img) patch_size num_samples delta p0 p c),
                          state_of m k (T ! img) patch_size num_samples delta p c))"
    by (simp add: grid_step_def fun_eq_iff)
  then show ?thesis
    using for_each_fold[of ps "kept T" "has_shape nh nw"
        "patch_step m k img patch_size num_samples delta p0"
        "\<lambda>p a c. put a p (effect_of m k (T ! img) patch_size num_samples delta p0 p c)"
        model_state
        "\<lambda>p c. state_of m k (T ! img) patch_size num_samples delta p c" w h,
        OF step assms(3,5)]
    by simp
qed

subsection \<open>The cells of the folded grid\<close>

lemma fold_grid_state:
  "snd (fold (grid_step m k x patch_size num_samples delta p0) ps (h, s))
     = fold (state_of m k x patch_size num_samples delta) ps s"
  by (induction ps arbitrary: h s) (simp_all add: grid_step_def)

lemma fold_grid_untouched:
  assumes "q \<notin> set ps"
  shows "fst (fold (grid_step m k x patch_size num_samples delta p0) ps (h, s)) ! fst q ! snd q
           = h ! fst q ! snd q"
  using assms
proof (induction ps arbitrary: h s)
  case Nil
  show ?case by simp
next
  case (Cons p ps)
  then have "q \<noteq> p" "q \<notin> set ps" by auto
  then show ?case using Cons.IH by (simp add: grid_step_def put_other)
qed

lemma fold_grid_shape:
  assumes "has_shape nh nw h"
  shows "has_shape nh nw (fst (fold (grid_step m k x patch_size num_samples delta p0) ps (h, s)))"
  using assms
  by (induction ps arbitrary: h s) (simp_all add: grid_step_def has_shape_put)

lemma fold_grid_cell:
  assumes "has_shape nh nw h" and "fst p < nh" and "snd p < nw" and "p \<notin> set post"
  shows "fst (fold (grid_step m k x patch_size num_samples delta p0) (pre @ p # post) (h, s))
           ! fst p ! snd p
         = effect_of m k x patch_size num_samples delta p0 p
             (fold (state_of m k x patch_size num_samples delta) pre s)"
proof -
  let ?g = "grid_step m k x patch_size num_samples delta p0"
  obtain h1 s1 where pre: "fold ?g pre (h, s) = (h1, s1)" by (cases "fold ?g pre (h, s)")
  have s1: "s1 = fold (state_of m k x patch_size num_samples delta) pre s"
    using fold_grid_state[of m k x patch_size num_samples delta p0 pre h s] pre by simp
  have sh: "has_shape nh nw h1"
    using fold_grid_shape[OF assms(1), of m k x patch_size num_samples delta p0 pre s] pre by simp
  then have b: "fst p < length h1" "snd p < length (h1 ! fst p)"
    using assms(2,3) by (auto simp: has_shape_def)
  have "fst (fold ?g (pre @ p # post) (h, s)) ! fst p ! snd p
          = fst (fold ?g post (put h1 p (effect_of m k x patch_size num_samples delta p0 p s1),
                               state_of m k x patch_size num_samples delta p s1)) ! fst p ! snd p"
    using pre by (simp add: grid_step_def)
  also have "\<dots> = put h1 p (effect_of m k x patch_size num_samples delta p0 p s1) ! fst p ! snd p"
    by (rule fold_grid_untouched[OF assms(4)])
  also have "\<dots> = effect_of m k x patch_size num_samples delta p0 p s1"
    by (rule put_same[OF b])
  finally show ?thesis using s1 by simp
qed

subsection \<open>The slice written by the code is the patch of the specification\<close>

lemma slice_bounds_nat: "slice_bounds n (int a) (int b) = (min a n, min b n)"
  by (simp add: slice_bounds_def Let_def min_def)

lemma slice_bounds_patch:
  assumes "0 < patch_size"
  shows "slice_bounds n (int i * patch_size) ((int i + 1) * patch_size)
           = (min (i * nat patch_size) n, min ((i + 1) * nat patch_size) n)"
proof -
  have a: "int i * patch_size = int (i * nat patch_size)"
    using assms by simp
  have b: "(int i + 1) * patch_size = int ((i + 1) * nat patch_size)"
    using assms by (simp add: algebra_simps)
  have "slice_bounds n (int (i * nat patch_size)) (int ((i + 1) * nat patch_size))
          = (min (i * nat patch_size) n, min ((i + 1) * nat patch_size) n)"
    by (rule slice_bounds_nat)
  then show ?thesis using a b by metis
qed

lemma update_slice_nth:
  assumes "k < length xs"
  shows "update_slice r f xs ! k = (if fst r \<le> k \<and> k < snd r then f (xs ! k) else xs ! k)"
  using assms by (simp add: update_slice_def)

lemma length_update_slice: "length (update_slice r f xs) = length xs"
  by (simp add: update_slice_def)

lemma update_plane:
  assumes "length plane = H" and "\<forall>r \<in> set plane. length r = W" and "0 < patch_size"
  shows "update_slice (slice_bounds H (int i * patch_size) ((int i + 1) * patch_size))
           (update_slice (slice_bounds W (int j * patch_size) ((int j + 1) * patch_size))
              (\<lambda>v. v + (delta :: real))) plane
         = map (\<lambda>y. map (\<lambda>x. plane ! y ! x
                              + (if in_patch (nat patch_size) i j y x then delta else 0))
                      [0..<W])
             [0..<H]"
proof -
  define rb where "rb = slice_bounds H (int i * patch_size) ((int i + 1) * patch_size)"
  define cb where "cb = slice_bounds W (int j * patch_size) ((int j + 1) * patch_size)"
  have rb: "fst rb = min (i * nat patch_size) H" "snd rb = min ((i + 1) * nat patch_size) H"
    by (simp_all add: rb_def slice_bounds_patch[OF assms(3)])
  have cb: "fst cb = min (j * nat patch_size) W" "snd cb = min ((j + 1) * nat patch_size) W"
    by (simp_all add: cb_def slice_bounds_patch[OF assms(3)])
  have cell: "(if fst rb \<le> y \<and> y < snd rb
               then update_slice cb (\<lambda>v. v + delta) (plane ! y) else plane ! y) ! x
              = plane ! y ! x + (if in_patch (nat patch_size) i j y x then delta else 0)"
    if "y < H" "x < W" for y x
  proof -
    have len: "length (plane ! y) = W" using that(1) assms(1,2) by simp
    show ?thesis
    proof (cases "fst rb \<le> y \<and> y < snd rb")
      case True
      then have "i * nat patch_size \<le> y \<and> y < (i + 1) * nat patch_size"
        using rb that(1) by (simp add: min_def split: if_splits)
      moreover have "(fst cb \<le> x \<and> x < snd cb)
                       = (j * nat patch_size \<le> x \<and> x < (j + 1) * nat patch_size)"
        using cb that(2) by (simp add: min_def split: if_splits)
      ultimately show ?thesis
        using True len that(2) by (simp add: update_slice_nth in_patch_def)
    next
      case False
      then have "\<not> (i * nat patch_size \<le> y \<and> y < (i + 1) * nat patch_size)"
        using rb that(1) by (simp add: min_def split: if_splits)
      then have "\<not> in_patch (nat patch_size) i j y x" by (auto simp: in_patch_def)
      then show ?thesis using False by auto
    qed
  qed
  have "update_slice rb (update_slice cb (\<lambda>v. v + delta)) plane
          = map (\<lambda>y. map (\<lambda>x. plane ! y ! x
                              + (if in_patch (nat patch_size) i j y x then delta else 0))
                      [0..<W]) [0..<H]"
  proof (rule nth_equalityI)
    show "length (update_slice rb (update_slice cb (\<lambda>v. v + delta)) plane)
            = length (map (\<lambda>y. map (\<lambda>x. plane ! y ! x
                              + (if in_patch (nat patch_size) i j y x then delta else 0))
                      [0..<W]) [0..<H])"
      using assms(1) by (simp add: length_update_slice)
  next
    fix y
    assume "y < length (update_slice rb (update_slice cb (\<lambda>v. v + delta)) plane)"
    then have y: "y < H" using assms(1) by (simp add: length_update_slice)
    then have len: "length (plane ! y) = W" using assms(1,2) by simp
    let ?row = "if fst rb \<le> y \<and> y < snd rb
                then update_slice cb (\<lambda>v. v + delta) (plane ! y) else plane ! y"
    have lr: "length ?row = W" using len by (simp add: length_update_slice)
    have "?row = map (\<lambda>x. plane ! y ! x
                          + (if in_patch (nat patch_size) i j y x then delta else 0)) [0..<W]"
    proof (rule nth_equalityI)
      show "length ?row = length (map (\<lambda>x. plane ! y ! x
                          + (if in_patch (nat patch_size) i j y x then delta else 0)) [0..<W])"
        using lr by simp
    next
      fix x
      assume "x < length ?row"
      then have x: "x < W" using lr by simp
      show "?row ! x = map (\<lambda>x. plane ! y ! x
                          + (if in_patch (nat patch_size) i j y x then delta else 0)) [0..<W] ! x"
        using cell[OF y x] x by simp
    qed
    moreover have "update_slice rb (update_slice cb (\<lambda>v. v + delta)) plane ! y = ?row"
      using y assms(1) by (simp add: update_slice_nth)
    ultimately show "update_slice rb (update_slice cb (\<lambda>v. v + delta)) plane ! y
          = map (\<lambda>y. map (\<lambda>x. plane ! y ! x
                              + (if in_patch (nat patch_size) i j y x then delta else 0))
                      [0..<W]) [0..<H] ! y"
      using y by simp
  qed
  then show ?thesis by (simp add: rb_def cb_def)
qed

lemma perturbed_of_spec:
  assumes "wf_image x" and "0 < patch_size"
  shows "perturbed_of x patch_size delta p = spec_perturbed x (nat patch_size) delta p"
proof -
  have "map (map (update_slice (slice_bounds (height x) (int (fst p) * patch_size)
                                   ((int (fst p) + 1) * patch_size))
                     (update_slice (slice_bounds (width x) (int (snd p) * patch_size)
                                      ((int (snd p) + 1) * patch_size)) (\<lambda>v. v + delta))))
           (pixels x)
        = map (map (\<lambda>plane.
                  map (\<lambda>y. map (\<lambda>xa. plane ! y ! xa
                                     + (if in_patch (nat patch_size) (fst p) (snd p) y xa
                                        then delta else 0))
                             [0..<width x])
                    [0..<height x]))
             (pixels x)"
  proof (intro map_cong refl)
    fix b plane
    assume "b \<in> set (pixels x)" "plane \<in> set b"
    then have "length plane = height x" "\<forall>r \<in> set plane. length r = width x"
      using assms(1) by (auto simp: wf_image_def)
    then show "update_slice (slice_bounds (height x) (int (fst p) * patch_size)
                                   ((int (fst p) + 1) * patch_size))
                     (update_slice (slice_bounds (width x) (int (snd p) * patch_size)
                                      ((int (snd p) + 1) * patch_size)) (\<lambda>v. v + delta)) plane
               = map (\<lambda>y. map (\<lambda>xa. plane ! y ! xa
                                     + (if in_patch (nat patch_size) (fst p) (snd p) y xa
                                        then delta else 0))
                             [0..<width x])
                    [0..<height x]"
      using update_plane[OF _ _ assms(2)] by blast
  qed
  then show ?thesis
    by (simp add: perturbed_of_def add_to_slice_def spec_perturbed_def)
qed

subsection \<open>The order of the patches\<close>

lemma py_range_int: "py_range (int n) = [0..<n]"
  by (simp add: py_range_def)

lemma patch_loops_flat:
  "patch_loops m k img patch_size num_samples delta p0 (int nh) (int nw) h w
     = for_each (patch_indices nh nw) (patch_step m k img patch_size num_samples delta p0) h w"
  unfolding patch_loops_def py_range_int patch_indices_def
  using for_each_nested[of "[0..<nh]" "\<lambda>i. [0..<nw]"
      "patch_step m k img patch_size num_samples delta p0" h w]
  by simp

lemma set_patch_indices: "set (patch_indices nh nw) = {0..<nh} \<times> {0..<nw}"
  by (auto simp: patch_indices_def)

lemma patch_indices_Suc:
  "patch_indices (Suc n) nw = patch_indices n nw @ map (Pair n) [0..<nw]"
  by (simp add: patch_indices_def)

lemma patch_indices_split:
  assumes "i < nh" and "j < nw"
  shows "\<exists>post. patch_indices nh nw = patches_before nw (i, j) @ (i, j) # post
               \<and> (i, j) \<notin> set post"
proof -
  have rows: "[0..<nh] = [0..<i] @ i # [Suc i..<nh]"
    using assms(1) by (metis upt_conv_Cons upt_add_eq_append le_add_diff_inverse less_imp_le zero_le)
  have cols: "[0..<nw] = [0..<j] @ j # [Suc j..<nw]"
    using assms(2) by (metis upt_conv_Cons upt_add_eq_append le_add_diff_inverse less_imp_le zero_le)
  let ?post = "map (Pair i) [Suc j..<nw] @ concat (map (\<lambda>i. map (Pair i) [0..<nw]) [Suc i..<nh])"
  have "patch_indices nh nw
          = concat (map (\<lambda>i. map (Pair i) [0..<nw]) [0..<i])
              @ map (Pair i) [0..<nw]
              @ concat (map (\<lambda>i. map (Pair i) [0..<nw]) [Suc i..<nh])"
    unfolding patch_indices_def by (subst rows) simp
  also have "map (Pair i) [0..<nw] = map (Pair i) [0..<j] @ (i, j) # map (Pair i) [Suc j..<nw]"
    by (subst cols) simp
  finally have "patch_indices nh nw = patches_before nw (i, j) @ (i, j) # ?post"
    by (simp add: patches_before_def patch_indices_def)
  moreover have "(i, j) \<notin> set ?post" by auto
  ultimately show ?thesis by blast
qed

subsection \<open>Lines 27 to 41\<close>

lemma call_model_result:
  "call_model m img \<lparr>tensors = T, model_state = s\<rparr>
     = (fst (forward m s (T ! img)),
        \<lparr>tensors = T[img := left_in_input m s (T ! img)],
         model_state = next_state m s (T ! img)\<rparr>)"
  by (simp add: call_model_def left_in_input_def next_state_def split: prod.splits)

lemma baseline_result:
  assumes "target_prob (fst (forward m (eval_mode m s) (T ! img))) k = Inr p0"
    and "0 < patch_size" and "img < length T"
    and "x1 = left_in_input m (eval_mode m s) (T ! img)"
  shows "baseline img k m patch_size \<lparr>tensors = T, model_state = s\<rparr>
           = (Inr (p0, height x1, width x1,
                   int (height x1 div nat patch_size), int (width x1 div nat patch_size),
                   replicate (height x1 div nat patch_size)
                     (replicate (width x1 div nat patch_size) 0)),
              \<lparr>tensors = T[img := x1],
               model_state = next_state m (eval_mode m s) (T ! img)\<rparr>)"
proof -
  have d: "int n div patch_size = int (n div nat patch_size)" for n
    using assms(2) by (simp add: zdiv_int)
  show ?thesis
    using assms
    by (simp add: baseline_def call_model_result Let_def floordiv_def zeros_def d)
qed

lemma has_shape_zeros: "has_shape nh nw (replicate nh (replicate nw 0))"
  by (simp add: has_shape_def)

lemma kept_update:
  assumes "img < length T"
  shows "kept (T[img := x]) \<lparr>tensors = T[img := x], model_state = s\<rparr>"
  by (simp add: kept_def)

subsection \<open>Lines 27 to 64\<close>

lemma patch_sensitivities_result:
  assumes "class_ok m k" and "0 < patch_size" and "0 < num_samples" and "img < length T"
    and "x1 = left_in_input m (eval_mode m s) (T ! img)"
    and "p0 = score m k (eval_mode m s) (T ! img)"
    and "s1 = next_state m (eval_mode m s) (T ! img)"
    and "nh = height x1 div nat patch_size" and "nw = width x1 div nat patch_size"
  shows "fst (patch_sensitivities img k m patch_size num_samples delta
                \<lparr>tensors = T, model_state = s\<rparr>)
           = Inr (fst (fold (grid_step m k x1 patch_size num_samples delta p0)
                         (patch_indices nh nw) (replicate nh (replicate nw 0), s1)),
                  height x1, width x1)
         \<and> model_state (snd (patch_sensitivities img k m patch_size num_samples delta
                \<lparr>tensors = T, model_state = s\<rparr>))
           = snd (fold (grid_step m k x1 patch_size num_samples delta p0)
                         (patch_indices nh nw) (replicate nh (replicate nw 0), s1))
         \<and> kept (T[img := x1]) (snd (patch_sensitivities img k m patch_size num_samples delta
                \<lparr>tensors = T, model_state = s\<rparr>))"
proof -
  let ?w2 = "\<lparr>tensors = T[img := x1], model_state = s1\<rparr>"
  let ?h0 = "replicate nh (replicate nw (0::real))"
  have tp: "target_prob (fst (forward m (eval_mode m s) (T ! img))) k = Inr p0"
    using target_prob_score[OF assms(1)] assms(6) by simp
  have b: "baseline img k m patch_size \<lparr>tensors = T, model_state = s\<rparr>
             = (Inr (p0, height x1, width x1, int nh, int nw, ?h0), ?w2)"
    using baseline_result[OF tp assms(2,4,5)] assms(7,8,9) by simp
  have img': "img < length (T[img := x1])" using assms(4) by simp
  have x1: "T[img := x1] ! img = x1" using assms(4) by simp
  have k2: "kept (T[img := x1]) ?w2" by (simp add: kept_def)
  have inr: "\<forall>p \<in> set (patch_indices nh nw). fst p < nh \<and> snd p < nw"
    by (auto simp: set_patch_indices)
  have loops: "fst (for_each (patch_indices nh nw)
                     (patch_step m k img patch_size num_samples delta p0) ?h0 ?w2)
           = Inr (fst (fold (grid_step m k x1 patch_size num_samples delta p0)
                        (patch_indices nh nw) (?h0, s1)))
         \<and> model_state (snd (for_each (patch_indices nh nw)
                     (patch_step m k img patch_size num_samples delta p0) ?h0 ?w2))
           = snd (fold (grid_step m k x1 patch_size num_samples delta p0)
                        (patch_indices nh nw) (?h0, s1))
         \<and> kept (T[img := x1]) (snd (for_each (patch_indices nh nw)
                     (patch_step m k img patch_size num_samples delta p0) ?h0 ?w2))"
    using patch_list_result[OF assms(1) img' k2 assms(3) has_shape_zeros inr,
        of patch_size delta p0] x1
    by simp
  obtain r w3 where l: "for_each (patch_indices nh nw)
                     (patch_step m k img patch_size num_samples delta p0) ?h0 ?w2 = (r, w3)"
    by (cases "for_each (patch_indices nh nw)
                     (patch_step m k img patch_size num_samples delta p0) ?h0 ?w2")
  show ?thesis
    using b l loops
    by (simp add: patch_sensitivities_def patch_loops_flat)
qed

lemma no_input_write_left:
  assumes "no_input_write m"
  shows "left_in_input m s x = x"
  using assms by (simp add: no_input_write_def left_in_input_def)

lemma fold_state_of_spec:
  assumes "wf_image x" and "0 < patch_size"
  shows "fold (state_of m k x patch_size num_samples delta) ps s
           = state_after_patches m k x (nat patch_size) (nat num_samples) delta ps s"
proof -
  have "state_of m k x patch_size num_samples delta
          = (\<lambda>p s. snd (repeat_score m k (spec_perturbed x (nat patch_size) delta p)
                            (nat num_samples) s))"
    by (simp add: state_of_def perturbed_of_spec[OF assms] fun_eq_iff)
  then show ?thesis by (simp add: state_after_patches_def)
qed

text \<open>
  C2. For a positive \<open>patch_size\<close> and \<open>num_samples\<close>, a scoring function that
  does not write into its input and a class that is an index of its result:
  lines 27 to 64 give a grid of \<open>H // patch_size\<close> by \<open>W // patch_size\<close> values,
  and the value of patch \<open>(i, j)\<close> is the average, over the \<open>num_samples\<close>
  successive forward passes made for that patch, of
  \<open>(score_fn(perturbed)[target_class] - p0) / delta\<close>, where \<open>perturbed\<close> is the
  image with \<open>delta\<close> added to every pixel of the patch region in every channel
  and \<open>p0\<close> is the probability of the class on the image itself, computed by the
  first forward pass. (The passes for a patch start from the state the model
  is in after the first pass and the passes of the patches before it.
  Divisibility of \<open>H\<close> and \<open>W\<close> by \<open>patch_size\<close> is not needed.)
\<close>

theorem patch_value_is_average_effect:
  assumes "0 < patch_size" and "0 < num_samples"
    and "class_ok m k" and "no_input_write m"
    and "img < length T" and "wf_image (T ! img)"
    and "i < height (T ! img) div nat patch_size"
    and "j < width (T ! img) div nat patch_size"
  shows "\<exists>h. fst (patch_sensitivities img k m patch_size num_samples delta
                    \<lparr>tensors = T, model_state = s\<rparr>)
               = Inr (h, height (T ! img), width (T ! img))
             \<and> length h = height (T ! img) div nat patch_size
             \<and> (\<forall>r \<in> set h. length r = width (T ! img) div nat patch_size)
             \<and> h ! i ! j
               = average_effect (score m k (eval_mode m s) (T ! img)) delta
                   (fst (repeat_score m k (spec_perturbed (T ! img) (nat patch_size) delta (i, j))
                          (nat num_samples)
                          (state_after_patches m k (T ! img) (nat patch_size) (nat num_samples)
                             delta
                             (patches_before (width (T ! img) div nat patch_size) (i, j))
                             (next_state m (eval_mode m s) (T ! img)))))"
proof -
  let ?x = "T ! img"
  let ?nh = "height ?x div nat patch_size"
  let ?nw = "width ?x div nat patch_size"
  let ?p0 = "score m k (eval_mode m s) ?x"
  let ?s1 = "next_state m (eval_mode m s) ?x"
  let ?g = "grid_step m k ?x patch_size num_samples delta ?p0"
  let ?h0 = "replicate ?nh (replicate ?nw (0::real))"
  let ?h = "fst (fold ?g (patch_indices ?nh ?nw) (?h0, ?s1))"
  have x1: "?x = left_in_input m (eval_mode m s) ?x"
    using no_input_write_left[OF assms(4)] by simp
  have res: "fst (patch_sensitivities img k m patch_size num_samples delta
                    \<lparr>tensors = T, model_state = s\<rparr>) = Inr (?h, height ?x, width ?x)"
    using patch_sensitivities_result[OF assms(3) assms(1,2,5) x1 refl refl refl refl, of delta]
    by simp
  have sh: "has_shape ?nh ?nw ?h"
    by (rule fold_grid_shape[OF has_shape_zeros])
  obtain post where split: "patch_indices ?nh ?nw = patches_before ?nw (i, j) @ (i, j) # post"
    and notin: "(i, j) \<notin> set post"
    using patch_indices_split[OF assms(7,8)] by blast
  have "?h ! i ! j
          = effect_of m k ?x patch_size num_samples delta ?p0 (i, j)
              (fold (state_of m k ?x patch_size num_samples delta) (patches_before ?nw (i, j)) ?s1)"
    using fold_grid_cell[OF has_shape_zeros, of "(i, j)" ?nh ?nw post m k ?x patch_size
        num_samples delta ?p0 "patches_before ?nw (i, j)" ?s1]
      assms(7,8) notin split
    by simp
  then have cell: "?h ! i ! j
          = average_effect ?p0 delta
              (fst (repeat_score m k (spec_perturbed ?x (nat patch_size) delta (i, j))
                      (nat num_samples)
                      (state_after_patches m k ?x (nat patch_size) (nat num_samples) delta
                         (patches_before ?nw (i, j)) ?s1)))"
    by (simp add: effect_of_def perturbed_of_spec[OF assms(6,1)]
        fold_state_of_spec[OF assms(6,1)])
  show ?thesis
    using res sh cell by (intro exI[of _ ?h]) (simp add: has_shape_def)
qed

text \<open>
  The theorem on a 2 by 2 image with patches of one pixel, two samples per
  patch and a model whose score drifts with every call: patch \<open>(0, 1)\<close> gets
  the average of the effects of the fourth and fifth forward passes.
\<close>

theorem patch_value_is_average_effect_witness:
  "class_ok drifting_model 0 \<and> no_input_write drifting_model \<and> wf_image img22
   \<and> (\<exists>h. fst (patch_sensitivities 0 0 drifting_model 1 2 (1 / 2)
                  \<lparr>tensors = [img22], model_state = 0\<rparr>) = Inr (h, 2, 2)
            \<and> length h = 2 \<and> h ! 0 ! 1 = 74 / 195)"
proof -
  have 1: "(0::int) < 1" "(0::int) < 2" "(0::nat) < length [img22]" by simp_all
  have 2: "wf_image ([img22] ! 0)" by (simp add: wf_img22)
  have 3: "0 < height ([img22] ! 0) div nat 1" "1 < width ([img22] ! 0) div nat 1"
    by (simp_all add: img22_def)
  have sc: "score drifting_model 0 s x
              = (1 + real s + pixels x ! 0 ! 0 ! 0 ! 1) / (2 + real s + pixels x ! 0 ! 0 ! 0 ! 1)"
    if "0 < 1 + real s + pixels x ! 0 ! 0 ! 0 ! 1" for s x
    using that by (simp add: score_def drifting_model_def target_prob_def py_index_def softmax_def)
  have ns: "next_state drifting_model s x = Suc s" for s x
    by (simp add: next_state_def drifting_model_def)
  have ev: "eval_mode drifting_model s = s" for s
    by (simp add: drifting_model_def)
  obtain h where h: "fst (patch_sensitivities 0 0 drifting_model 1 2 (1 / 2)
              \<lparr>tensors = [img22], model_state = 0\<rparr>) = Inr (h, 2, 2)"
       "length h = 2" "h ! 0 ! 1 = 74 / 195"
    using patch_value_is_average_effect[OF 1(1,2) class_ok_drifting no_input_write_drifting
        1(3) 2 3, of "1 / 2" 0]
    by (auto simp: img22_def average_effect_def state_after_patches_def patches_before_def
      patch_indices_def spec_perturbed_def in_patch_def numeral_2_eq_2 ns sc upt_rec ev)
  then show ?thesis
    using class_ok_drifting no_input_write_drifting wf_img22 by blast
qed

lemma concat_torch_abs: "concat (torch_abs h) = map abs (concat h)"
  by (simp add: torch_abs_def map_concat)

lemma torch_min_Min:
  assumes "concat h \<noteq> []"
  shows "torch_min (torch_abs h) = Inr (Min (abs_values h))"
proof -
  obtain v vs where c: "map abs (concat h) = v # vs"
    using assms by (cases "map abs (concat h)") auto
  have "Min (set (v # vs)) = fold min vs v" by (rule Min.set_eq_fold)
  then show ?thesis
    using c by (simp add: torch_min_def concat_torch_abs abs_values_def)
qed

lemma torch_max_Max:
  assumes "concat h \<noteq> []"
  shows "torch_max (torch_abs h) = Inr (Max (abs_values h))"
proof -
  obtain v vs where c: "map abs (concat h) = v # vs"
    using assms by (cases "map abs (concat h)") auto
  have "Max (set (v # vs)) = fold max vs v" by (rule Max.set_eq_fold)
  then show ?thesis
    using c by (simp add: torch_max_def concat_torch_abs abs_values_def)
qed

lemma normalize_empty:
  assumes "concat h = []"
  shows "normalize h = Inl RuntimeError"
proof -
  have "torch_min (torch_abs h) = Inl RuntimeError"
    unfolding torch_min_def concat_torch_abs assms by simp
  then show ?thesis by (simp add: normalize_def Let_def)
qed

lemma normalize_result:
  assumes "concat h \<noteq> []"
  shows "normalize h
           = Inr (if Max (abs_values h) - Min (abs_values h) \<le> 1 / 10 ^ 8
                  then map (map (\<lambda>v. 0)) h
                  else map (map (\<lambda>v. (\<bar>v\<bar> - Min (abs_values h))
                                        / (Max (abs_values h) - Min (abs_values h)))) h)"
proof -
  let ?lo = "Min (abs_values h)" and ?hi = "Max (abs_values h)"
  have n: "normalize h
             = (if ?hi - ?lo > eps
                then Inr (map (map (\<lambda>v. (v - ?lo) / (?hi - ?lo))) (torch_abs h))
                else Inr (map (map (\<lambda>v. 0)) (torch_abs h)))"
    unfolding normalize_def Let_def torch_min_Min[OF assms] torch_max_Max[OF assms] by simp
  have a: "map (map (\<lambda>v. (v - ?lo) / (?hi - ?lo))) (torch_abs h)
             = map (map (\<lambda>v. (\<bar>v\<bar> - ?lo) / (?hi - ?lo))) h"
    by (simp add: torch_abs_def comp_def)
  have b: "map (map (\<lambda>v. 0::real)) (torch_abs h) = map (map (\<lambda>v. 0)) h"
    by (simp add: torch_abs_def comp_def)
  have c: "(?hi - ?lo > eps) = (\<not> ?hi - ?lo \<le> 1 / 10 ^ 8)"
    unfolding eps_def by (simp only: not_le)
  show ?thesis unfolding n a b c by (simp only: if_not_P if_P split: if_splits) auto
qed

lemma abs_values_bounds:
  assumes "v \<in> set (concat h)"
  shows "Min (abs_values h) \<le> \<bar>v\<bar>" "\<bar>v\<bar> \<le> Max (abs_values h)"
proof -
  have "finite (abs_values h)" by (simp add: abs_values_def)
  moreover have "\<bar>v\<bar> \<in> abs_values h"
    unfolding abs_values_def using assms by (metis imageI set_map)
  ultimately show "Min (abs_values h) \<le> \<bar>v\<bar>" "\<bar>v\<bar> \<le> Max (abs_values h)"
    by (rule Min_le, rule Max_ge)
qed

lemma Max_abs_values_attained:
  assumes "concat h \<noteq> []"
  shows "\<exists>v \<in> set (concat h). \<bar>v\<bar> = Max (abs_values h)"
proof -
  have "finite (abs_values h)" by (simp add: abs_values_def)
  moreover have "abs_values h \<noteq> {}"
    unfolding abs_values_def using assms by (metis map_is_Nil_conv set_empty)
  ultimately have "Max (abs_values h) \<in> abs_values h" by (rule Max_in)
  then have "Max (abs_values h) \<in> abs ` set (concat h)"
    unfolding abs_values_def by (simp only: set_map)
  then show ?thesis by (metis imageE)
qed

text \<open>
  C3. Lines 67 to 74 on a grid with at least one patch: the absolute value of
  every patch sensitivity is taken, and the grid is scaled as
  \<open>(v - min) / (max - min)\<close>, unless \<open>max - min \<le> 1e-8\<close>, in which case every
  value is set to 0 and no error is raised. The result is all zeros if and
  only if \<open>max - min \<le> 1e-8\<close>.
\<close>

theorem normalize_min_max:
  assumes "concat h \<noteq> []"
  shows "\<exists>g. normalize h = Inr g
          \<and> g = (if Max (abs_values h) - Min (abs_values h) \<le> 1 / 10 ^ 8
                 then map (map (\<lambda>v. 0)) h
                 else map (map (\<lambda>v. (\<bar>v\<bar> - Min (abs_values h))
                                       / (Max (abs_values h) - Min (abs_values h)))) h)
          \<and> ((\<forall>v \<in> set (concat g). v = 0)
               \<longleftrightarrow> Max (abs_values h) - Min (abs_values h) \<le> 1 / 10 ^ 8)"
proof -
  let ?lo = "Min (abs_values h)" and ?hi = "Max (abs_values h)"
  let ?g = "if ?hi - ?lo \<le> 1 / 10 ^ 8 then map (map (\<lambda>v. 0)) h
            else map (map (\<lambda>v. (\<bar>v\<bar> - ?lo) / (?hi - ?lo))) h"
  have n: "normalize h = Inr ?g" by (rule normalize_result[OF assms])
  have "(\<forall>v \<in> set (concat ?g). v = 0) \<longleftrightarrow> ?hi - ?lo \<le> 1 / 10 ^ 8"
  proof (cases "?hi - ?lo \<le> 1 / 10 ^ 8")
    case True
    then show ?thesis by auto
  next
    case False
    then have pos: "0 < ?hi - ?lo" by simp
    obtain v where v: "v \<in> set (concat h)" "\<bar>v\<bar> = ?hi"
      using Max_abs_values_attained[OF assms] by blast
    have "(\<bar>v\<bar> - ?lo) / (?hi - ?lo) \<in> set (concat ?g)"
      using v(1) False by (auto simp: map_concat comp_def)
    moreover have "(\<bar>v\<bar> - ?lo) / (?hi - ?lo) = 1" using v(2) pos by simp
    ultimately have "\<not> (\<forall>v \<in> set (concat ?g). v = 0)" by force
    with False show ?thesis by simp
  qed
  with n show ?thesis by blast
qed

text \<open>
  The theorem on two grids: one with values of different magnitude, one whose
  values all have the same magnitude.
\<close>

theorem normalize_min_max_witness:
  "concat [[1, - 3], [2, 0 :: real]] \<noteq> []
   \<and> normalize [[1, - 3], [2, 0]] = Inr [[1 / 3, 1], [2 / 3, 0]]
   \<and> normalize [[5, - 5], [5, 5]] = Inr [[0, 0], [0, 0]]"
proof -
  have a: "concat [[1, - 3], [2, 0 :: real]] \<noteq> []" by simp
  have b: "concat [[5, - 5], [5, 5 :: real]] \<noteq> []" by simp
  have va: "abs_values [[1, - 3], [2, 0]] = {0, 1, 2, 3}" by (auto simp: abs_values_def)
  have vb: "abs_values [[5, - 5], [5, 5]] = {5}" by (auto simp: abs_values_def)
  show ?thesis
    using normalize_min_max[OF a] normalize_min_max[OF b] a
    by (auto simp: va vb)
qed

subsection \<open>Lines 77 to 79\<close>

lemma index_and_lambda_facts:
  assumes "0 < n_in" and "index_and_lambda n_in n_out d = (i0, i1, l0, l1)"
  shows "i0 < n_in" "i1 < n_in" "0 \<le> l0" "0 \<le> l1" "l0 + l1 = 1"
proof -
  let ?src = "source_index n_in n_out d"
  have p: "i0 = fst (index_and_lambda n_in n_out d)"
    "i1 = fst (snd (index_and_lambda n_in n_out d))"
    "l0 = fst (snd (snd (index_and_lambda n_in n_out d)))"
    "l1 = snd (snd (snd (index_and_lambda n_in n_out d)))"
    using assms(2) by simp_all
  have i0: "i0 = min (nat \<lfloor>?src\<rfloor>) (n_in - 1)"
    unfolding p by (simp add: index_and_lambda_def Let_def)
  have i1: "i1 = i0 + (if i0 < n_in - 1 then 1 else 0)"
    unfolding p by (simp add: index_and_lambda_def Let_def)
  have l1: "l1 = min (max (?src - real i0) 0) 1"
    unfolding p by (simp add: index_and_lambda_def Let_def)
  have l0: "l0 = 1 - l1"
    unfolding p by (simp add: index_and_lambda_def Let_def)
  show "i0 < n_in" using i0 assms(1) by simp
  then show "i1 < n_in" using i1 by (auto split: if_splits)
  show "0 \<le> l1" using l1 by simp
  have "l1 \<le> 1" using l1 by simp
  then show "0 \<le> l0" using l0 by simp
  show "l0 + l1 = 1" using l0 by simp
qed

lemma convex_between:
  fixes u v a b lo hi :: real
  assumes "0 \<le> u" "0 \<le> v" "u + v = 1" "lo \<le> a" "a \<le> hi" "lo \<le> b" "b \<le> hi"
  shows "lo \<le> u * a + v * b" "u * a + v * b \<le> hi"
proof -
  have "u * lo + v * lo \<le> u * a + v * b"
    using assms by (intro add_mono mult_left_mono) auto
  moreover have "u * lo + v * lo = lo"
    using assms(3) by (metis distrib_right mult_1)
  ultimately show "lo \<le> u * a + v * b" by simp
  have "u * a + v * b \<le> u * hi + v * hi"
    using assms by (intro add_mono mult_left_mono) auto
  moreover have "u * hi + v * hi = hi"
    using assms(3) by (metis distrib_right mult_1)
  ultimately show "u * a + v * b \<le> hi" by simp
qed

lemma cell_in_concat:
  assumes "has_shape nh nw g" "y < nh" "x < nw"
  shows "g ! y ! x \<in> set (concat g)"
proof -
  have "g ! y \<in> set g" using assms by (simp add: has_shape_def)
  moreover have "g ! y ! x \<in> set (g ! y)" using assms by (simp add: has_shape_def)
  ultimately show ?thesis by auto
qed

lemma bilinear_at_between:
  assumes "has_shape nh nw g" and "0 < nh" and "0 < nw"
    and "\<forall>v \<in> set (concat g). lo \<le> v \<and> v \<le> hi"
  shows "lo \<le> bilinear_at g nh nw H W y x \<and> bilinear_at g nh nw H W y x \<le> hi"
proof -
  obtain y0 y1 h0 h1 where iy: "index_and_lambda nh H y = (y0, y1, h0, h1)"
    by (cases "index_and_lambda nh H y") auto
  obtain x0 x1 w0 w1 where ix: "index_and_lambda nw W x = (x0, x1, w0, w1)"
    by (cases "index_and_lambda nw W x") auto
  note fy = index_and_lambda_facts[OF assms(2) iy]
  note fx = index_and_lambda_facts[OF assms(3) ix]
  have c: "lo \<le> g ! a ! b \<and> g ! a ! b \<le> hi" if "a < nh" "b < nw" for a b
    using cell_in_concat[OF assms(1) that] assms(4) by blast
  have top: "lo \<le> w0 * g ! y0 ! x0 + w1 * g ! y0 ! x1"
            "w0 * g ! y0 ! x0 + w1 * g ! y0 ! x1 \<le> hi"
    using convex_between[OF fx(3,4,5), of lo "g ! y0 ! x0" hi "g ! y0 ! x1"]
      c[OF fy(1) fx(1)] c[OF fy(1) fx(2)] by auto
  have bot: "lo \<le> w0 * g ! y1 ! x0 + w1 * g ! y1 ! x1"
            "w0 * g ! y1 ! x0 + w1 * g ! y1 ! x1 \<le> hi"
    using convex_between[OF fx(3,4,5), of lo "g ! y1 ! x0" hi "g ! y1 ! x1"]
      c[OF fy(2) fx(1)] c[OF fy(2) fx(2)] by auto
  have "bilinear_at g nh nw H W y x
          = h0 * (w0 * g ! y0 ! x0 + w1 * g ! y0 ! x1)
            + h1 * (w0 * g ! y1 ! x0 + w1 * g ! y1 ! x1)"
    by (simp add: bilinear_at_def iy ix)
  then show ?thesis
    using convex_between[OF fy(3,4,5) top(1,2) bot(1,2)] by simp
qed

lemma interpolate_bilinear_result:
  assumes "has_shape nh nw g" and "0 < nh" and "0 < nw" and "0 < H" and "0 < W"
  shows "interpolate_bilinear g H W
           = Inr (map (\<lambda>y. map (\<lambda>x. bilinear_at g nh nw H W y x) [0..<W]) [0..<H])"
proof -
  obtain r rs where g: "g = r # rs" using assms(1,2) by (cases g) (auto simp: has_shape_def)
  then have "length r = nw" "length g = nh" using assms(1) by (auto simp: has_shape_def)
  then show ?thesis
    using assms g by (simp add: interpolate_bilinear_def Let_def)
qed

lemma upsample_result:
  assumes "has_shape nh nw g" and "0 < nh" and "0 < nw" and "0 < H" and "0 < W"
  shows "upsample g H W
           = Inr \<lparr>shape = filter (\<lambda>d. d \<noteq> 1) [1, 1, H, W],
                 elems = concat (map (\<lambda>y. map (\<lambda>x. bilinear_at g nh nw H W y x) [0..<W])
                                   [0..<H])\<rparr>"
  by (simp add: upsample_def interpolate_bilinear_result[OF assms] squeeze_def)

lemma length_concat_rows:
  "length (concat (map (\<lambda>y. map (f y) [0..<W]) [0..<H])) = H * W"
  by (induction H) simp_all

lemma in_concat_rows:
  assumes "v \<in> set (concat (map (\<lambda>y. map (f y) [0..<W]) [0..<H]))"
  shows "\<exists>y x. v = f y x"
  using assms by auto

subsection \<open>The normalised grid\<close>

lemma has_shape_map: "has_shape nh nw h \<Longrightarrow> has_shape nh nw (map (map f) h)"
  by (auto simp: has_shape_def)

lemma has_shape_nonempty:
  assumes "has_shape nh nw h" "0 < nh" "0 < nw"
  shows "concat h \<noteq> []"
proof -
  obtain r rs where g: "h = r # rs" using assms(1,2) by (cases h) (auto simp: has_shape_def)
  then have "length r = nw" using assms(1) by (auto simp: has_shape_def)
  then have "r \<noteq> []" using assms(3) by auto
  then show ?thesis using g by simp
qed

lemma normalize_unit_interval:
  assumes "normalize h = Inr g"
  shows "\<forall>v \<in> set (concat g). 0 \<le> v \<and> v \<le> 1"
proof (cases "concat h = []")
  case True
  then show ?thesis using assms by (simp add: normalize_empty)
next
  case False
  let ?lo = "Min (abs_values h)" and ?hi = "Max (abs_values h)"
  show ?thesis
  proof (cases "?hi - ?lo \<le> 1 / 10 ^ 8")
    case True
    then have "g = map (map (\<lambda>v. 0)) h"
      using assms normalize_result[OF False] by simp
    then show ?thesis by auto
  next
    case big: False
    then have g: "g = map (map (\<lambda>v. (\<bar>v\<bar> - ?lo) / (?hi - ?lo))) h"
      using assms normalize_result[OF False] by simp
    have pos: "0 < ?hi - ?lo" using big by simp
    show ?thesis
    proof
      fix v
      assume "v \<in> set (concat g)"
      then obtain u where u: "u \<in> set (concat h)" "v = (\<bar>u\<bar> - ?lo) / (?hi - ?lo)"
        unfolding g by auto
      have "?lo \<le> \<bar>u\<bar>" "\<bar>u\<bar> \<le> ?hi" using abs_values_bounds[OF u(1)] by auto
      then show "0 \<le> v \<and> v \<le> 1" using u(2) pos by simp
    qed
  qed
qed

lemma normalize_shape:
  assumes "normalize h = Inr g" "has_shape nh nw h"
  shows "has_shape nh nw g"
proof (cases "concat h = []")
  case True
  then show ?thesis using assms by (simp add: normalize_empty)
next
  case False
  show ?thesis
    using assms(1) normalize_result[OF False] has_shape_map[OF assms(2)]
    by (auto split: if_splits)
qed

lemma raw_grid_shape:
  "has_shape (height x div nat patch_size) (width x div nat patch_size)
     (raw_grid m k x patch_size num_samples delta s)"
  unfolding raw_grid_def by (rule fold_grid_shape[OF has_shape_zeros])

lemma patch_sensitivities_raw_grid:
  assumes "class_ok m k" and "0 < patch_size" and "0 < num_samples" and "img < length T"
    and "no_input_write m"
  shows "fst (patch_sensitivities img k m patch_size num_samples delta
                \<lparr>tensors = T, model_state = s\<rparr>)
           = Inr (raw_grid m k (T ! img) patch_size num_samples delta (eval_mode m s),
                  height (T ! img), width (T ! img))"
proof -
  have x1: "T ! img = left_in_input m (eval_mode m s) (T ! img)"
    using no_input_write_left[OF assms(5)] by simp
  show ?thesis
    using patch_sensitivities_result[OF assms(1,2,3,4) x1 refl refl refl refl, of delta]
    by (simp add: raw_grid_def)
qed

lemma generate_attribution_snd:
  "snd (generate_attribution img k m patch_size num_samples delta w)
     = snd (patch_sensitivities img k m patch_size num_samples delta w)"
  by (simp add: generate_attribution_def split: prod.splits sum.splits)

lemma generate_attribution_fst:
  assumes "fst (patch_sensitivities img k m patch_size num_samples delta w) = Inr (h, H, W)"
  shows "fst (generate_attribution img k m patch_size num_samples delta w)
           = (case normalize h of Inl e \<Rightarrow> Inl e | Inr g \<Rightarrow> upsample g H W)"
proof -
  obtain r w' where p: "patch_sensitivities img k m patch_size num_samples delta w = (r, w')"
    by (cases "patch_sensitivities img k m patch_size num_samples delta w")
  then have "r = Inr (h, H, W)" using assms by simp
  then show ?thesis
    using p by (simp add: generate_attribution_def split: sum.splits)
qed

lemma generate_attribution_valid:
  assumes "class_ok m k" and "0 < patch_size" and "0 < num_samples" and "img < length T"
    and "no_input_write m"
    and "nat patch_size \<le> height (T ! img)" and "nat patch_size \<le> width (T ! img)"
  shows "\<exists>g. normalize (raw_grid m k (T ! img) patch_size num_samples delta (eval_mode m s)) = Inr g
           \<and> has_shape (height (T ! img) div nat patch_size) (width (T ! img) div nat patch_size) g
           \<and> fst (generate_attribution img k m patch_size num_samples delta
                    \<lparr>tensors = T, model_state = s\<rparr>)
               = Inr \<lparr>shape = filter (\<lambda>d. d \<noteq> 1) [1, 1, height (T ! img), width (T ! img)],
                     elems = concat (map (\<lambda>y. map (\<lambda>x.
                                bilinear_at g (height (T ! img) div nat patch_size)
                                  (width (T ! img) div nat patch_size)
                                  (height (T ! img)) (width (T ! img)) y x)
                                [0..<width (T ! img)]) [0..<height (T ! img)])\<rparr>"
proof -
  let ?H = "height (T ! img)" and ?W = "width (T ! img)"
  let ?nh = "?H div nat patch_size" and ?nw = "?W div nat patch_size"
  let ?h = "raw_grid m k (T ! img) patch_size num_samples delta (eval_mode m s)"
  have ps: "0 < nat patch_size" using assms(2) by simp
  have nh: "0 < ?nh" using assms(6) ps by (simp add: div_greater_zero_iff)
  have nw: "0 < ?nw" using assms(7) ps by (simp add: div_greater_zero_iff)
  have H: "0 < ?H" "0 < ?W" using assms(6,7) ps by auto
  have sh: "has_shape ?nh ?nw ?h" by (rule raw_grid_shape)
  have ne: "concat ?h \<noteq> []" by (rule has_shape_nonempty[OF sh nh nw])
  obtain g where g: "normalize ?h = Inr g" using normalize_result[OF ne] by blast
  have shg: "has_shape ?nh ?nw g" by (rule normalize_shape[OF g sh])
  have "fst (generate_attribution img k m patch_size num_samples delta
                    \<lparr>tensors = T, model_state = s\<rparr>) = upsample g ?H ?W"
    using generate_attribution_fst[OF patch_sensitivities_raw_grid[OF assms(1,2,3,4,5)]] g
    by simp
  then show ?thesis
    using g shg upsample_result[OF shg nh nw H] by simp
qed

text \<open>
  On every valid input the values of the heatmap lie in \<open>[0, 1]\<close>, there are
  \<open>H * W\<close> of them, and the shape is \<open>[H, W]\<close> with every dimension of size 1
  removed. (\<open>delta \<noteq> 0\<close> keeps the statement to the inputs on which the reals
  model the floats.)
\<close>

lemma heatmap_unit_interval:
  assumes "class_ok m k" and "0 < patch_size" and "0 < num_samples" and "img < length T"
    and "no_input_write m"
    and "nat patch_size \<le> height (T ! img)" and "nat patch_size \<le> width (T ! img)"
    and "delta \<noteq> 0"
  shows "\<exists>t. fst (generate_attribution img k m patch_size num_samples delta
                    \<lparr>tensors = T, model_state = s\<rparr>) = Inr t
           \<and> shape t = filter (\<lambda>d. d \<noteq> 1) [height (T ! img), width (T ! img)]
           \<and> length (elems t) = height (T ! img) * width (T ! img)
           \<and> (\<forall>v \<in> set (elems t). 0 \<le> v \<and> v \<le> 1)"
proof -
  let ?H = "height (T ! img)" and ?W = "width (T ! img)"
  let ?nh = "?H div nat patch_size" and ?nw = "?W div nat patch_size"
  obtain g where g: "normalize (raw_grid m k (T ! img) patch_size num_samples delta (eval_mode m s))
                       = Inr g"
    and shg: "has_shape ?nh ?nw g"
    and r: "fst (generate_attribution img k m patch_size num_samples delta
                    \<lparr>tensors = T, model_state = s\<rparr>)
               = Inr \<lparr>shape = filter (\<lambda>d. d \<noteq> 1) [1, 1, ?H, ?W],
                     elems = concat (map (\<lambda>y. map (\<lambda>x. bilinear_at g ?nh ?nw ?H ?W y x)
                                [0..<?W]) [0..<?H])\<rparr>"
    using generate_attribution_valid[OF assms(1-7), of delta s] by blast
  have ps: "0 < nat patch_size" using assms(2) by simp
  have nh: "0 < ?nh" using assms(6) ps by (simp add: div_greater_zero_iff)
  have nw: "0 < ?nw" using assms(7) ps by (simp add: div_greater_zero_iff)
  have u: "\<forall>v \<in> set (concat g). 0 \<le> v \<and> v \<le> 1" by (rule normalize_unit_interval[OF g])
  have "0 \<le> v \<and> v \<le> 1"
    if mem: "v \<in> set (concat (map (\<lambda>y. map (\<lambda>x. bilinear_at g ?nh ?nw ?H ?W y x) [0..<?W]) [0..<?H]))"
    for v
  proof -
    obtain y x where "v = bilinear_at g ?nh ?nw ?H ?W y x"
      using mem by auto
    then show ?thesis using bilinear_at_between[OF shg nh nw u] by simp
  qed
  then show ?thesis using r by (simp add: length_concat_rows)
qed

text \<open>
  C4. The output is a grid of \<open>H * W\<close> values in \<open>[0, 1]\<close> obtained by bilinear
  upsampling (\<open>generate_attribution_valid\<close>, \<open>heatmap_unit_interval\<close>), but its
  shape is not always \<open>(H, W)\<close>: \<open>squeeze()\<close> at line 79 removes every
  dimension of size 1, so for an image of height 1 and width 2 (with
  \<open>patch_size = 1\<close>, which divides both) the result is a 1-D tensor of shape
  \<open>[2]\<close>, where the comment of line 79 and the docstring promise a 2-D tensor
  of shape \<open>[H, W]\<close>.
\<close>

theorem heatmap_shape_unit_height:
  "fst (generate_attribution 0 0 pixel_model 1 1 (1 / 4) \<lparr>tensors = [img12], model_state = 0\<rparr>)
     = Inr \<lparr>shape = [2], elems = [0, 1]\<rparr>"
  by (simp add: run_defs pixel_model_def img12_def upt_rec numeral_eq_Suc)

lemma constant_score:
  assumes "constant_scores m"
  shows "score m k s x = score m k s' x'"
  using assms unfolding constant_scores_def score_def target_prob_def by metis

lemma repeat_score_constant:
  assumes "constant_scores m"
  shows "fst (repeat_score m k x n s) = replicate n (score m k s0 x0)"
proof (induction n arbitrary: s)
  case 0
  show ?case by simp
next
  case (Suc n)
  obtain probs s' where r: "repeat_score m k x n (next_state m s x) = (probs, s')"
    by (cases "repeat_score m k x n (next_state m s x)")
  have "probs = replicate n (score m k s0 x0)" using Suc[of "next_state m s x"] r by simp
  then show ?case using r constant_score[OF assms, of k s x s0 x0] by simp
qed

lemma average_effect_constant: "average_effect p0 delta (replicate n p0) = 0"
  by (simp add: average_effect_def sum_list_replicate)

lemma effect_of_constant:
  assumes "constant_scores m"
  shows "effect_of m k x patch_size num_samples delta (score m k s0 x0) p s = 0"
  unfolding effect_of_def repeat_score_constant[OF assms, of k _ _ _ s0 x0]
  by (rule average_effect_constant)

lemma put_zero:
  assumes "fst p < nh" "snd p < nw"
  shows "put (replicate nh (replicate nw 0)) p 0 = replicate nh (replicate nw (0::real))"
proof -
  have "(replicate nw (0::real))[snd p := 0] = replicate nw 0"
    using assms(2) by (intro nth_equalityI) (simp_all add: nth_list_update)
  moreover have "(replicate nh (replicate nw (0::real)))[fst p := replicate nw 0]
                   = replicate nh (replicate nw 0)"
    using assms(1) by (intro nth_equalityI) (simp_all add: nth_list_update)
  ultimately show ?thesis using assms by (simp add: put_def)
qed

lemma fold_grid_constant:
  assumes "constant_scores m" and "\<forall>p \<in> set ps. fst p < nh \<and> snd p < nw"
  shows "fst (fold (grid_step m k x patch_size num_samples delta (score m k s0 x0)) ps
                (replicate nh (replicate nw 0), s))
           = replicate nh (replicate nw 0)"
  using assms(2)
proof (induction ps arbitrary: s)
  case Nil
  show ?case by simp
next
  case (Cons p ps)
  then have "fst p < nh" "snd p < nw" by auto
  then show ?case
    using Cons by (simp add: grid_step_def effect_of_constant[OF assms(1)] put_zero)
qed

lemma raw_grid_constant:
  assumes "constant_scores m"
  shows "raw_grid m k x patch_size num_samples delta s
           = replicate (height x div nat patch_size) (replicate (width x div nat patch_size) 0)"
  unfolding raw_grid_def
  by (rule fold_grid_constant[OF assms]) (auto simp: set_patch_indices)

lemma normalize_zeros:
  assumes "0 < nh" "0 < nw"
  shows "normalize (replicate nh (replicate nw 0)) = Inr (replicate nh (replicate nw 0))"
proof -
  let ?h = "replicate nh (replicate nw (0::real))"
  have ne: "concat ?h \<noteq> []"
    by (rule has_shape_nonempty[OF has_shape_zeros assms])
  have "abs_values ?h = {0}"
    using assms by (auto simp: abs_values_def)
  then have "Max (abs_values ?h) - Min (abs_values ?h) \<le> 1 / 10 ^ 8" by simp
  then have "normalize ?h = Inr (map (map (\<lambda>v. 0)) ?h)"
    using normalize_result[OF ne] by simp
  then show ?thesis by simp
qed

text \<open>
  C5. A scoring function that returns the same vector for every input: on
  every valid image (at least one patch in each direction) and valid
  parameters, the heatmap is all zeros.
\<close>

theorem constant_score_gives_zero_heatmap:
  assumes "constant_scores m"
    and "class_ok m k" and "no_input_write m"
    and "0 < patch_size" and "0 < num_samples" and "img < length T"
    and "nat patch_size \<le> height (T ! img)" and "nat patch_size \<le> width (T ! img)"
  shows "fst (generate_attribution img k m patch_size num_samples delta
                \<lparr>tensors = T, model_state = s\<rparr>)
           = Inr \<lparr>shape = filter (\<lambda>d. d \<noteq> 1) [height (T ! img), width (T ! img)],
                 elems = replicate (height (T ! img) * width (T ! img)) 0\<rparr>"
proof -
  let ?H = "height (T ! img)" and ?W = "width (T ! img)"
  let ?nh = "?H div nat patch_size" and ?nw = "?W div nat patch_size"
  let ?z = "replicate ?nh (replicate ?nw (0::real))"
  have ps: "0 < nat patch_size" using assms(4) by simp
  have nh: "0 < ?nh" using assms(7) ps by (simp add: div_greater_zero_iff)
  have nw: "0 < ?nw" using assms(8) ps by (simp add: div_greater_zero_iff)
  obtain g where g: "normalize (raw_grid m k (T ! img) patch_size num_samples delta (eval_mode m s))
                       = Inr g"
    and r: "fst (generate_attribution img k m patch_size num_samples delta
                    \<lparr>tensors = T, model_state = s\<rparr>)
               = Inr \<lparr>shape = filter (\<lambda>d. d \<noteq> 1) [1, 1, ?H, ?W],
                     elems = concat (map (\<lambda>y. map (\<lambda>x. bilinear_at g ?nh ?nw ?H ?W y x)
                                [0..<?W]) [0..<?H])\<rparr>"
    using generate_attribution_valid[OF assms(2,4,5,6,3,7,8), of delta s] by blast
  have gz: "g = ?z"
    using g normalize_zeros[OF nh nw] by (simp add: raw_grid_constant[OF assms(1)])
  have z: "\<forall>v \<in> set (concat ?z). 0 \<le> v \<and> v \<le> 0" by auto
  have b: "bilinear_at ?z ?nh ?nw ?H ?W y x = 0" for y x
    using bilinear_at_between[OF has_shape_zeros nh nw z, of ?H ?W y x] by simp
  have "concat (map (\<lambda>y. map (\<lambda>x. bilinear_at ?z ?nh ?nw ?H ?W y x) [0..<?W]) [0..<?H])
          = replicate (?H * ?W) 0"
    by (rule replicate_eqI) (auto simp: length_concat_rows b split: if_splits)
  then show ?thesis using r gz by simp
qed

text \<open>The theorem on a 2 by 2 image and the model with constant logits.\<close>

theorem constant_score_gives_zero_heatmap_witness:
  "constant_scores counting_model \<and> class_ok counting_model 0 \<and> no_input_write counting_model
   \<and> fst (generate_attribution 0 0 counting_model 1 3 (1 / 20)
             \<lparr>tensors = [img22], model_state = 0\<rparr>)
       = Inr \<lparr>shape = [2, 2], elems = [0, 0, 0, 0]\<rparr>"
proof -
  have h: "(0::int) < 1" "(0::int) < 3" "(0::nat) < length [img22]"
    "nat 1 \<le> height ([img22] ! 0)" "nat 1 \<le> width ([img22] ! 0)"
    by (simp_all add: img22_def)
  show ?thesis
    using constant_score_gives_zero_heatmap[OF constant_scores_counting class_ok_counting
        no_input_write_counting h, of "1 / 20" 0]
      constant_scores_counting class_ok_counting no_input_write_counting
    by (simp add: img22_def numeral_eq_Suc)
qed

subsection \<open>What the run writes\<close>

lemma sample_step_appends:
  "\<exists>t. tensors (snd (sample_step m k img patch_size delta p0 i j n effects w)) = tensors w @ [t]"
  by (simp add: sample_step_def clone_def call_model_def Let_def split: prod.splits sum.splits)

lemma kept_sample_step:
  assumes "kept T w"
  shows "kept T (snd (sample_step m k img patch_size delta p0 i j n effects w))"
proof -
  obtain t where "tensors (snd (sample_step m k img patch_size delta p0 i j n effects w))
                    = tensors w @ [t]"
    using sample_step_appends by blast
  then show ?thesis using assms by (simp add: kept_def)
qed

lemma patch_step_snd:
  "snd (patch_step m k img patch_size num_samples delta p0 p h w)
     = snd (for_each (py_range num_samples)
              (sample_step m k img patch_size delta p0 (fst p) (snd p)) [] w)"
  by (simp add: patch_step_def split: prod.splits sum.splits)

lemma kept_patch_step:
  assumes "kept T w"
  shows "kept T (snd (patch_step m k img patch_size num_samples delta p0 p h w))"
  unfolding patch_step_snd
  by (rule for_each_invariant[where I = "kept T"]) (simp_all add: kept_sample_step assms)

lemma kept_patch_loops:
  fixes w :: "'s world"
  assumes "kept T w"
  shows "kept T (snd (patch_loops m k img patch_size num_samples delta p0 nh nw h w))"
  unfolding patch_loops_def
proof (rule for_each_invariant[where I = "kept T"])
  fix i acc and v :: "'s world"
  assume "kept T v"
  then show "kept T (snd (for_each (py_range nw)
                (\<lambda>j. patch_step m k img patch_size num_samples delta p0 (i, j)) acc v))"
    by (intro for_each_invariant[where I = "kept T"]) (simp_all add: kept_patch_step)
qed (rule assms)

lemma baseline_snd:
  "snd (baseline img k m patch_size \<lparr>tensors = T, model_state = s\<rparr>)
     = \<lparr>tensors = T[img := left_in_input m (eval_mode m s) (T ! img)],
        model_state = next_state m (eval_mode m s) (T ! img)\<rparr>"
  by (simp add: baseline_def call_model_result Let_def split: sum.splits)

lemma patch_sensitivities_kept:
  "kept (T[img := left_in_input m (eval_mode m s) (T ! img)])
     (snd (patch_sensitivities img k m patch_size num_samples delta
             \<lparr>tensors = T, model_state = s\<rparr>))"
proof -
  let ?T1 = "T[img := left_in_input m (eval_mode m s) (T ! img)]"
  obtain r w where b: "baseline img k m patch_size \<lparr>tensors = T, model_state = s\<rparr> = (r, w)"
    by (cases "baseline img k m patch_size \<lparr>tensors = T, model_state = s\<rparr>")
  have "tensors w = ?T1" using baseline_snd[of img k m patch_size T s] b by simp
  then have k: "kept ?T1 w" by (simp add: kept_def)
  show ?thesis
  proof (cases r)
    case (Inl e)
    then show ?thesis using b k by (simp add: patch_sensitivities_def)
  next
    case (Inr v)
    obtain p0 H W nh nw h where v: "v = (p0, H, W, nh, nw, h)" by (cases v) auto
    obtain q u where l: "patch_loops m k img patch_size num_samples delta p0 nh nw h w = (q, u)"
      by (cases "patch_loops m k img patch_size num_samples delta p0 nh nw h w")
    have "kept ?T1 u"
      using kept_patch_loops[OF k, of m k img patch_size num_samples delta p0 nh nw h] l by simp
    then show ?thesis
      using b Inr v l by (simp add: patch_sensitivities_def split: sum.splits)
  qed
qed

text \<open>
  C9. With a scoring function that does not write into its input,
  \<open>generate_attribution\<close> leaves the image as it was, and every other tensor
  that existed before the call too: each perturbation goes to a tensor created
  by \<open>clone\<close>. This holds for every outcome of the call, an exception included.
\<close>

theorem image_not_mutated:
  assumes "no_input_write m" and "img < length T"
  shows "tensors (snd (generate_attribution img k m patch_size num_samples delta
                         \<lparr>tensors = T, model_state = s\<rparr>)) ! img = T ! img
         \<and> take (length T)
             (tensors (snd (generate_attribution img k m patch_size num_samples delta
                              \<lparr>tensors = T, model_state = s\<rparr>))) = T"
proof -
  have "T[img := left_in_input m (eval_mode m s) (T ! img)] = T"
    using no_input_write_left[OF assms(1)] by simp
  then have k: "kept T (snd (generate_attribution img k m patch_size num_samples delta
                         \<lparr>tensors = T, model_state = s\<rparr>))"
    using patch_sensitivities_kept[of T img m s k patch_size num_samples delta]
    by (simp add: generate_attribution_snd)
  show ?thesis using kept_nth(2)[OF k assms(2)] k by (simp add: kept_def)
qed

text \<open>The theorem on a store with two tensors and a model with state.\<close>

theorem image_not_mutated_witness:
  "no_input_write drifting_model
   \<and> tensors (snd (generate_attribution 0 0 drifting_model 1 2 (1 / 2)
                     \<lparr>tensors = [img22, img11], model_state = 0\<rparr>)) ! 0 = img22
   \<and> take 2 (tensors (snd (generate_attribution 0 0 drifting_model 1 2 (1 / 2)
                     \<lparr>tensors = [img22, img11], model_state = 0\<rparr>))) = [img22, img11]"
proof -
  have h: "(0::nat) < length [img22, img11]" by simp
  show ?thesis
    using image_not_mutated[OF no_input_write_drifting h, of 0 1 2 "1 / 2" 0]
      no_input_write_drifting
    by (simp add: numeral_2_eq_2)
qed

lemma sample_step_same:
  assumes "deterministic m" and "same_image img w w'"
  shows "fst (sample_step m k img patch_size delta p0 i j n effects w)
           = fst (sample_step m k img patch_size delta p0 i j n effects w')
         \<and> same_image img (snd (sample_step m k img patch_size delta p0 i j n effects w))
             (snd (sample_step m k img patch_size delta p0 i j n effects w'))"
proof -
  let ?X = "perturbed_of (tensors w ! img) patch_size delta (i, j)"
  have X: "perturbed_of (tensors w' ! img) patch_size delta (i, j) = ?X"
    using assms(2) by (simp add: same_image_def)
  have l: "img < length (tensors w)" "img < length (tensors w')"
    using assms(2) by (simp_all add: same_image_def)
  obtain out x1 s1 where f: "forward m (model_state w) ?X = (out, x1, s1)"
    by (cases "forward m (model_state w) ?X")
  obtain out' x1' s1' where f': "forward m (model_state w') ?X = (out', x1', s1')"
    by (cases "forward m (model_state w') ?X")
  have o: "out' = out"
    using assms(1) f f' unfolding deterministic_def by (metis fst_conv)
  have a: "sample_step m k img patch_size delta p0 i j n effects w
             = (case target_prob out k of Inl e \<Rightarrow> Inl e
                | Inr q \<Rightarrow> Inr (effects @ [(q - p0) / delta]),
                \<lparr>tensors = tensors w @ [x1], model_state = s1\<rparr>)"
    using f by (simp add: sample_step_def clone_def call_model_def Let_def perturbed_of_def
        split: sum.splits)
  have b: "sample_step m k img patch_size delta p0 i j n effects w'
             = (case target_prob out k of Inl e \<Rightarrow> Inl e
                | Inr q \<Rightarrow> Inr (effects @ [(q - p0) / delta]),
                \<lparr>tensors = tensors w' @ [x1'], model_state = s1'\<rparr>)"
    using f' X o by (simp add: sample_step_def clone_def call_model_def Let_def perturbed_of_def
        split: sum.splits)
  show ?thesis
    unfolding a b using assms(2) by (simp add: same_image_def nth_append)
qed

lemma patch_step_same:
  assumes "deterministic m" and "same_image img w w'"
  shows "fst (patch_step m k img patch_size num_samples delta p0 p h w)
           = fst (patch_step m k img patch_size num_samples delta p0 p h w')
         \<and> same_image img (snd (patch_step m k img patch_size num_samples delta p0 p h w))
             (snd (patch_step m k img patch_size num_samples delta p0 p h w'))"
proof -
  let ?loop = "\<lambda>w. for_each (py_range num_samples)
                 (sample_step m k img patch_size delta p0 (fst p) (snd p)) [] w"
  have l: "fst (?loop w) = fst (?loop w') \<and> same_image img (snd (?loop w)) (snd (?loop w'))"
    by (rule for_each_related[where R = "same_image img"])
      (simp_all add: sample_step_same[OF assms(1)] assms(2))
  obtain r v where a: "?loop w = (r, v)" by (cases "?loop w")
  obtain r' v' where b: "?loop w' = (r', v')" by (cases "?loop w'")
  have "r' = r" "same_image img v v'" using l a b by simp_all
  then show ?thesis
    using a b by (simp add: patch_step_def split: sum.splits)
qed

lemma patch_loops_same:
  fixes w w' :: "'s world"
  assumes "deterministic m" and "same_image img w w'"
  shows "fst (patch_loops m k img patch_size num_samples delta p0 nh nw h w)
           = fst (patch_loops m k img patch_size num_samples delta p0 nh nw h w')
         \<and> same_image img (snd (patch_loops m k img patch_size num_samples delta p0 nh nw h w))
             (snd (patch_loops m k img patch_size num_samples delta p0 nh nw h w'))"
  unfolding patch_loops_def
proof (rule for_each_related[where R = "same_image img"])
  fix i acc and v v' :: "'s world"
  assume "same_image img v v'"
  then show "fst (for_each (py_range nw)
                (\<lambda>j. patch_step m k img patch_size num_samples delta p0 (i, j)) acc v)
             = fst (for_each (py_range nw)
                (\<lambda>j. patch_step m k img patch_size num_samples delta p0 (i, j)) acc v')
           \<and> same_image img
               (snd (for_each (py_range nw)
                (\<lambda>j. patch_step m k img patch_size num_samples delta p0 (i, j)) acc v))
               (snd (for_each (py_range nw)
                (\<lambda>j. patch_step m k img patch_size num_samples delta p0 (i, j)) acc v'))"
    by (intro for_each_related[where R = "same_image img"])
      (simp_all add: patch_step_same[OF assms(1)])
qed (rule assms(2))

lemma baseline_same:
  assumes "deterministic m" and "img < length T" and "img < length T'" and "T ! img = T' ! img"
  shows "fst (baseline img k m patch_size \<lparr>tensors = T, model_state = s\<rparr>)
           = fst (baseline img k m patch_size \<lparr>tensors = T', model_state = s'\<rparr>)
         \<and> same_image img (snd (baseline img k m patch_size \<lparr>tensors = T, model_state = s\<rparr>))
             (snd (baseline img k m patch_size \<lparr>tensors = T', model_state = s'\<rparr>))"
proof -
  have o: "fst (forward m (eval_mode m s) (T ! img)) = fst (forward m (eval_mode m s') (T ! img))"
    and x: "left_in_input m (eval_mode m s) (T ! img) = left_in_input m (eval_mode m s') (T ! img)"
    using assms(1) unfolding deterministic_def left_in_input_def by auto
  have "same_image img (snd (baseline img k m patch_size \<lparr>tensors = T, model_state = s\<rparr>))
             (snd (baseline img k m patch_size \<lparr>tensors = T', model_state = s'\<rparr>))"
    unfolding baseline_snd using assms(2,3,4) x by (simp add: same_image_def)
  moreover have "fst (baseline img k m patch_size \<lparr>tensors = T, model_state = s\<rparr>)
           = fst (baseline img k m patch_size \<lparr>tensors = T', model_state = s'\<rparr>)"
    using o x assms(2,3,4)
    by (simp add: baseline_def call_model_result Let_def split: sum.splits)
  ultimately show ?thesis by simp
qed

text \<open>
  C7. With a scoring function whose result depends on its input only (not on
  the state the model is in), two calls on the same image content with the
  same class and the same parameters return the same result, whatever the
  state of the model and whatever else the store holds at each call.
\<close>

theorem deterministic_output:
  assumes "deterministic m" and "img < length T" and "img < length T'" and "T ! img = T' ! img"
  shows "fst (generate_attribution img k m patch_size num_samples delta
                \<lparr>tensors = T, model_state = s\<rparr>)
           = fst (generate_attribution img k m patch_size num_samples delta
                \<lparr>tensors = T', model_state = s'\<rparr>)"
proof -
  let ?b = "baseline img k m patch_size \<lparr>tensors = T, model_state = s\<rparr>"
  let ?b' = "baseline img k m patch_size \<lparr>tensors = T', model_state = s'\<rparr>"
  obtain r w where b: "?b = (r, w)" by (cases ?b)
  obtain r' w' where b': "?b' = (r', w')" by (cases ?b')
  have rr: "r' = r" and sw: "same_image img w w'"
    using baseline_same[OF assms, of k patch_size s s'] b b' by simp_all
  have "fst (patch_sensitivities img k m patch_size num_samples delta
                \<lparr>tensors = T, model_state = s\<rparr>)
           = fst (patch_sensitivities img k m patch_size num_samples delta
                \<lparr>tensors = T', model_state = s'\<rparr>)"
  proof (cases r)
    case (Inl e)
    then show ?thesis using b b' rr by (simp add: patch_sensitivities_def)
  next
    case (Inr v)
    obtain p0 H W nh nw h where v: "v = (p0, H, W, nh, nw, h)" by (cases v) auto
    let ?l = "patch_loops m k img patch_size num_samples delta p0 nh nw h"
    obtain q u where l: "?l w = (q, u)" by (cases "?l w")
    obtain q' u' where l': "?l w' = (q', u')" by (cases "?l w'")
    have "q' = q" using patch_loops_same[OF assms(1) sw, of k patch_size num_samples delta
          p0 nh nw h] l l' by simp
    then show ?thesis
      using b b' rr Inr v l l' by (simp add: patch_sensitivities_def split: sum.splits)
  qed
  then show ?thesis
    by (cases "patch_sensitivities img k m patch_size num_samples delta
                \<lparr>tensors = T, model_state = s\<rparr>";
        cases "patch_sensitivities img k m patch_size num_samples delta
                \<lparr>tensors = T', model_state = s'\<rparr>")
      (simp add: generate_attribution_def split: sum.splits)
qed

text \<open>
  The theorem for two calls that differ in the state of the model and in what
  else the store holds.
\<close>

theorem deterministic_output_witness:
  "deterministic pixel_model
   \<and> fst (generate_attribution 0 0 pixel_model 1 2 (1 / 4)
            \<lparr>tensors = [img22], model_state = 0\<rparr>)
       = fst (generate_attribution 0 0 pixel_model 1 2 (1 / 4)
            \<lparr>tensors = [img22, img11], model_state = 7\<rparr>)"
proof -
  have h: "(0::nat) < length [img22]" "(0::nat) < length [img22, img11]"
    "[img22] ! 0 = [img22, img11] ! 0" by simp_all
  show ?thesis
    using deterministic_output[OF deterministic_pixel h, of 0 1 2 "1 / 4" 0 7] deterministic_pixel
    by simp
qed

lemma patch_loops_row_major:
  "patch_loops m k img patch_size num_samples delta p0 nh nw h w
     = for_each (row_major nh nw) (patch_step m k img patch_size num_samples delta p0) h w"
  unfolding patch_loops_def row_major_def
  using for_each_nested[of "py_range nh" "\<lambda>i. py_range nw"
      "patch_step m k img patch_size num_samples delta p0" h w]
  by simp

lemma generate_attribution_is_row_major:
  "generate_attribution img k m patch_size num_samples delta
     = generate_attribution_in_order row_major img k m patch_size num_samples delta"
proof -
  have "patch_sensitivities img k m patch_size num_samples delta
          = patch_sensitivities_in_order row_major img k m patch_size num_samples delta"
    unfolding patch_sensitivities_def patch_sensitivities_in_order_def patch_loops_row_major
    by (rule refl)
  then show ?thesis
    unfolding generate_attribution_def generate_attribution_in_order_def by simp
qed

lemma row_major_int: "row_major (int nh) (int nw) = patch_indices nh nw"
  by (simp add: row_major_def patch_indices_def py_range_int)

lemma deterministic_score:
  assumes "deterministic m"
  shows "score m k s x = score m k s' x"
  using assms unfolding deterministic_def score_def by metis

lemma repeat_score_deterministic:
  assumes "deterministic m"
  shows "fst (repeat_score m k x n s) = fst (repeat_score m k x n s')"
proof (induction n arbitrary: s s')
  case 0
  show ?case by simp
next
  case (Suc n)
  obtain a t where r: "repeat_score m k x n (next_state m s x) = (a, t)"
    by (cases "repeat_score m k x n (next_state m s x)")
  obtain a' t' where r': "repeat_score m k x n (next_state m s' x) = (a', t')"
    by (cases "repeat_score m k x n (next_state m s' x)")
  have "a = a'" using Suc[of "next_state m s x" "next_state m s' x"] r r' by simp
  then show ?case using r r' deterministic_score[OF assms, of k s x s'] by simp
qed

lemma effect_of_deterministic:
  assumes "deterministic m"
  shows "effect_of m k x patch_size num_samples delta p0 p s
           = effect_of m k x patch_size num_samples delta p0 p s'"
  unfolding effect_of_def
  using repeat_score_deterministic[OF assms, of k _ _ s s'] by simp

lemma fold_grid_cell_deterministic:
  assumes "deterministic m" and "has_shape nh nw h" and "p \<in> set ps"
    and "fst p < nh" and "snd p < nw"
  shows "fst (fold (grid_step m k x patch_size num_samples delta p0) ps (h, s)) ! fst p ! snd p
           = effect_of m k x patch_size num_samples delta p0 p s0"
proof -
  obtain pre post where sp: "ps = pre @ p # post" and n: "p \<notin> set post"
    using split_list_last[OF assms(3)] by blast
  show ?thesis
    unfolding sp
    using fold_grid_cell[OF assms(2,4,5) n, of m k x patch_size num_samples delta p0 pre s]
      effect_of_deterministic[OF assms(1)]
    by metis
qed

lemma grid_eqI:
  assumes "has_shape nh nw a" and "has_shape nh nw b"
    and "\<And>i j. i < nh \<Longrightarrow> j < nw \<Longrightarrow> a ! i ! j = b ! i ! j"
  shows "a = b"
proof (rule nth_equalityI)
  show "length a = length b" using assms(1,2) by (simp add: has_shape_def)
next
  fix i
  assume "i < length a"
  then have i: "i < nh" using assms(1) by (simp add: has_shape_def)
  then have la: "length (a ! i) = nw" and lb: "length (b ! i) = nw"
    using assms(1,2) by (simp_all add: has_shape_def)
  show "a ! i = b ! i"
  proof (rule nth_equalityI)
    show "length (a ! i) = length (b ! i)" using la lb by simp
  next
    fix j
    assume "j < length (a ! i)"
    then show "a ! i ! j = b ! i ! j" using assms(3)[OF i] la by simp
  qed
qed

lemma fold_grid_any_order:
  assumes "deterministic m" and "set ps = set qs"
    and "\<forall>p \<in> set qs. fst p < nh \<and> snd p < nw"
    and "{0..<nh} \<times> {0..<nw} \<subseteq> set qs"
  shows "fst (fold (grid_step m k x patch_size num_samples delta p0) ps
                (replicate nh (replicate nw 0), s))
           = fst (fold (grid_step m k x patch_size num_samples delta p0) qs
                (replicate nh (replicate nw 0), s'))"
proof (rule grid_eqI[of nh nw])
  show "has_shape nh nw (fst (fold (grid_step m k x patch_size num_samples delta p0) ps
                (replicate nh (replicate nw 0), s)))"
    by (rule fold_grid_shape[OF has_shape_zeros])
  show "has_shape nh nw (fst (fold (grid_step m k x patch_size num_samples delta p0) qs
                (replicate nh (replicate nw 0), s')))"
    by (rule fold_grid_shape[OF has_shape_zeros])
next
  fix i j
  assume ij: "i < nh" "j < nw"
  then have q: "(i, j) \<in> set qs" using assms(4) by auto
  then have p: "(i, j) \<in> set ps" using assms(2) by simp
  have "fst (fold (grid_step m k x patch_size num_samples delta p0) ps
                (replicate nh (replicate nw 0), s)) ! i ! j
          = effect_of m k x patch_size num_samples delta p0 (i, j) s"
    using fold_grid_cell_deterministic[OF assms(1) has_shape_zeros p, of nh nw] ij by simp
  moreover have "fst (fold (grid_step m k x patch_size num_samples delta p0) qs
                (replicate nh (replicate nw 0), s')) ! i ! j
          = effect_of m k x patch_size num_samples delta p0 (i, j) s"
    using fold_grid_cell_deterministic[OF assms(1) has_shape_zeros q, of nh nw] ij by simp
  ultimately show "fst (fold (grid_step m k x patch_size num_samples delta p0) ps
                (replicate nh (replicate nw 0), s)) ! i ! j
          = fst (fold (grid_step m k x patch_size num_samples delta p0) qs
                (replicate nh (replicate nw 0), s')) ! i ! j"
    by simp
qed

lemma patch_sensitivities_in_order_result:
  assumes "class_ok m k" and "0 < patch_size" and "0 < num_samples" and "img < length T"
    and "no_input_write m"
    and "\<forall>p \<in> set (order (int (height (T ! img) div nat patch_size))
                           (int (width (T ! img) div nat patch_size))).
           fst p < height (T ! img) div nat patch_size
           \<and> snd p < width (T ! img) div nat patch_size"
  shows "fst (patch_sensitivities_in_order order img k m patch_size num_samples delta
                \<lparr>tensors = T, model_state = s\<rparr>)
           = Inr (fst (fold (grid_step m k (T ! img) patch_size num_samples delta
                               (score m k (eval_mode m s) (T ! img)))
                         (order (int (height (T ! img) div nat patch_size))
                                (int (width (T ! img) div nat patch_size)))
                         (replicate (height (T ! img) div nat patch_size)
                            (replicate (width (T ! img) div nat patch_size) 0),
                          next_state m (eval_mode m s) (T ! img))),
                  height (T ! img), width (T ! img))"
proof -
  let ?x = "T ! img"
  let ?nh = "height ?x div nat patch_size" and ?nw = "width ?x div nat patch_size"
  let ?p0 = "score m k (eval_mode m s) ?x"
  let ?s1 = "next_state m (eval_mode m s) ?x"
  let ?w2 = "\<lparr>tensors = T, model_state = ?s1\<rparr>"
  let ?h0 = "replicate ?nh (replicate ?nw (0::real))"
  let ?ps = "order (int ?nh) (int ?nw)"
  have x1: "?x = left_in_input m (eval_mode m s) ?x"
    using no_input_write_left[OF assms(5)] by simp
  have tp: "target_prob (fst (forward m (eval_mode m s) ?x)) k = Inr ?p0"
    by (rule target_prob_score[OF assms(1)])
  have b: "baseline img k m patch_size \<lparr>tensors = T, model_state = s\<rparr>
             = (Inr (?p0, height ?x, width ?x, int ?nh, int ?nw, ?h0), ?w2)"
    using baseline_result[OF tp assms(2,4) x1] x1 by simp
  have k2: "kept T ?w2" by (simp add: kept_def)
  have loops: "fst (for_each ?ps (patch_step m k img patch_size num_samples delta ?p0) ?h0 ?w2)
           = Inr (fst (fold (grid_step m k ?x patch_size num_samples delta ?p0) ?ps (?h0, ?s1)))"
    using patch_list_result[OF assms(1,4) k2 assms(3) has_shape_zeros assms(6),
        of patch_size delta ?p0]
    by simp
  obtain r w3 where l: "for_each ?ps (patch_step m k img patch_size num_samples delta ?p0)
                          ?h0 ?w2 = (r, w3)"
    by (cases "for_each ?ps (patch_step m k img patch_size num_samples delta ?p0) ?h0 ?w2")
  show ?thesis
    using b l loops by (simp add: patch_sensitivities_in_order_def)
qed

text \<open>
  C6. With a scoring function whose result depends on its input only, that
  does not write into its input, and valid parameters: for every permutation
  of the sequence of patch indices, running the body of the loop over the
  patches in the permuted order gives the same result as the code
  (\<open>generate_attribution\<close> is the run in row-major order).
\<close>

theorem patch_order_irrelevant:
  assumes "deterministic m" and "class_ok m k" and "no_input_write m"
    and "0 < patch_size" and "0 < num_samples" and "img < length T"
    and "mset (order (int (height (T ! img) div nat patch_size))
                     (int (width (T ! img) div nat patch_size)))
         = mset (row_major (int (height (T ! img) div nat patch_size))
                     (int (width (T ! img) div nat patch_size)))"
  shows "fst (generate_attribution_in_order order img k m patch_size num_samples delta
                \<lparr>tensors = T, model_state = s\<rparr>)
         = fst (generate_attribution img k m patch_size num_samples delta
                \<lparr>tensors = T, model_state = s\<rparr>)
         \<and> generate_attribution img k m patch_size num_samples delta
             = generate_attribution_in_order row_major img k m patch_size num_samples delta"
proof -
  let ?x = "T ! img"
  let ?nh = "height ?x div nat patch_size" and ?nw = "width ?x div nat patch_size"
  let ?ps = "order (int ?nh) (int ?nw)"
  let ?qs = "row_major (int ?nh) (int ?nw)"
  let ?run = "\<lambda>order. patch_sensitivities_in_order order img k m patch_size num_samples delta
                \<lparr>tensors = T, model_state = s\<rparr>"
  have qs: "set ?qs = {0..<?nh} \<times> {0..<?nw}"
    by (simp add: row_major_int set_patch_indices)
  have same: "set ?ps = set ?qs" using assms(7) by (metis set_mset_mset)
  have inq: "\<forall>p \<in> set ?qs. fst p < ?nh \<and> snd p < ?nw" using qs by auto
  have inp: "\<forall>p \<in> set ?ps. fst p < ?nh \<and> snd p < ?nw" using inq same by simp
  have sub: "{0..<?nh} \<times> {0..<?nw} \<subseteq> set ?qs" using qs by simp
  have "fst (?run order) = fst (?run row_major)"
    using patch_sensitivities_in_order_result[where order = order, OF assms(2,4,5,6,3) inp,
        of delta s]
      patch_sensitivities_in_order_result[where order = row_major, OF assms(2,4,5,6,3) inq,
        of delta s]
      fold_grid_any_order[OF assms(1) same inq sub]
    by simp
  then have "fst (generate_attribution_in_order order img k m patch_size num_samples delta
                \<lparr>tensors = T, model_state = s\<rparr>)
         = fst (generate_attribution_in_order row_major img k m patch_size num_samples delta
                \<lparr>tensors = T, model_state = s\<rparr>)"
    by (cases "?run order"; cases "?run row_major")
      (simp add: generate_attribution_in_order_def split: sum.splits)
  then show ?thesis
    using generate_attribution_is_row_major[of img k m patch_size num_samples delta] by simp
qed

text \<open>The theorem for the reversed order, on a 2 by 2 image.\<close>

theorem patch_order_irrelevant_witness:
  "deterministic pixel_model \<and> class_ok pixel_model 0 \<and> no_input_write pixel_model
   \<and> fst (generate_attribution_in_order (\<lambda>nh nw. rev (row_major nh nw)) 0 0 pixel_model 1 2
             (1 / 4) \<lparr>tensors = [img22], model_state = 0\<rparr>)
       = fst (generate_attribution 0 0 pixel_model 1 2 (1 / 4)
             \<lparr>tensors = [img22], model_state = 0\<rparr>)"
proof -
  have h: "(0::int) < 1" "(0::int) < 2" "(0::nat) < length [img22]" by simp_all
  have p: "mset ((\<lambda>nh nw. rev (row_major nh nw))
                   (int (height ([img22] ! 0) div nat 1)) (int (width ([img22] ! 0) div nat 1)))
             = mset (row_major (int (height ([img22] ! 0) div nat 1))
                      (int (width ([img22] ! 0) div nat 1)))"
    by simp
  show ?thesis
    using patch_order_irrelevant[where order = "\<lambda>nh nw. rev (row_major nh nw)",
        OF deterministic_pixel class_ok_pixel no_input_write_pixel h p, of "1 / 4" 0]
      deterministic_pixel class_ok_pixel no_input_write_pixel
    by simp
qed

lemma clones_only_sample_step:
  assumes "class_ok m k" and "no_input_write m" and "img < length T"
    and "clones_only T A w" and "perturbed_of (T ! img) patch_size delta (i, j) \<in> A"
  shows "clones_only T A (snd (sample_step m k img patch_size delta p0 i j n effects w))"
proof -
  have k: "kept T w" using assms(4) by (simp add: clones_only_def)
  have n: "img < length (tensors w)" "tensors w ! img = T ! img"
    using kept_nth[OF k assms(3)] by auto
  let ?X = "perturbed_of (T ! img) patch_size delta (i, j)"
  have "tensors (snd (sample_step m k img patch_size delta p0 i j n effects w))
          = tensors w @ [?X]"
    using sample_step_result[OF assms(1) n(1), of patch_size delta p0 i j n effects] n(2)
      no_input_write_left[OF assms(2)]
    by simp
  moreover have "length T \<le> length (tensors w)" using k by (simp add: kept_def)
  ultimately show ?thesis
    using assms(4,5) by (simp add: clones_only_def kept_def)
qed

lemma clones_only_patch_step:
  assumes "class_ok m k" and "no_input_write m" and "img < length T"
    and "clones_only T A w" and "perturbed_of (T ! img) patch_size delta p \<in> A"
  shows "clones_only T A (snd (patch_step m k img patch_size num_samples delta p0 p h w))"
  unfolding patch_step_snd
proof (rule for_each_invariant[where I = "clones_only T A"])
  fix n effects and v :: "'a world"
  assume "clones_only T A v"
  then show "clones_only T A
               (snd (sample_step m k img patch_size delta p0 (fst p) (snd p) n effects v))"
    using clones_only_sample_step[OF assms(1,2,3), of A v patch_size delta "fst p" "snd p"]
      assms(5)
    by simp
qed (rule assms(4))

lemma clones_only_patches:
  fixes w :: "'s world"
  assumes "class_ok m k" and "no_input_write m" and "img < length T"
    and "clones_only T A w" and "\<forall>p \<in> set ps. perturbed_of (T ! img) patch_size delta p \<in> A"
  shows "clones_only T A
           (snd (for_each ps (patch_step m k img patch_size num_samples delta p0) h w))"
proof (rule for_each_invariant[where I = "clones_only T A"])
  fix p acc and v :: "'s world"
  assume "p \<in> set ps" "clones_only T A v"
  then show "clones_only T A (snd (patch_step m k img patch_size num_samples delta p0 p acc v))"
    using clones_only_patch_step[OF assms(1,2,3)] assms(5) by blast
qed (rule assms(4))

lemma generate_attribution_clones:
  assumes "class_ok m k" and "no_input_write m" and "img < length T" and "0 < patch_size"
  shows "clones_only T
           ((\<lambda>p. perturbed_of (T ! img) patch_size delta p)
              ` ({0..<height (T ! img) div nat patch_size}
                 \<times> {0..<width (T ! img) div nat patch_size}))
           (snd (generate_attribution img k m patch_size num_samples delta
                   \<lparr>tensors = T, model_state = s\<rparr>))"
proof -
  let ?x = "T ! img"
  let ?nh = "height ?x div nat patch_size" and ?nw = "width ?x div nat patch_size"
  let ?A = "(\<lambda>p. perturbed_of ?x patch_size delta p) ` ({0..<?nh} \<times> {0..<?nw})"
  let ?p0 = "score m k (eval_mode m s) ?x"
  let ?s1 = "next_state m (eval_mode m s) ?x"
  let ?w2 = "\<lparr>tensors = T, model_state = ?s1\<rparr>"
  let ?h0 = "replicate ?nh (replicate ?nw (0::real))"
  have x1: "?x = left_in_input m (eval_mode m s) ?x"
    using no_input_write_left[OF assms(2)] by simp
  have tp: "target_prob (fst (forward m (eval_mode m s) ?x)) k = Inr ?p0"
    by (rule target_prob_score[OF assms(1)])
  have b: "baseline img k m patch_size \<lparr>tensors = T, model_state = s\<rparr>
             = (Inr (?p0, height ?x, width ?x, int ?nh, int ?nw, ?h0), ?w2)"
    using baseline_result[OF tp assms(4,3) x1] x1 by simp
  have c2: "clones_only T ?A ?w2" by (simp add: clones_only_def kept_def)
  have mem: "\<forall>p \<in> set (patch_indices ?nh ?nw). perturbed_of ?x patch_size delta p \<in> ?A"
    by (simp add: set_patch_indices)
  let ?l = "for_each (patch_indices ?nh ?nw)
              (patch_step m k img patch_size num_samples delta ?p0) ?h0 ?w2"
  have cl: "clones_only T ?A (snd ?l)"
    by (rule clones_only_patches[OF assms(1,2,3) c2 mem])
  obtain r w3 where l: "?l = (r, w3)" by (cases ?l)
  have "snd (patch_sensitivities img k m patch_size num_samples delta
                   \<lparr>tensors = T, model_state = s\<rparr>) = w3"
    using b l by (simp add: patch_sensitivities_def patch_loops_flat split: sum.splits)
  then show ?thesis using cl l by (simp add: generate_attribution_snd)
qed

subsection \<open>The pixels of a perturbed image\<close>

lemma spec_perturbed_pixel:
  assumes "wf_image x0" and "b < batch x0" and "c < channels x0"
    and "y < height x0" and "x < width x0"
  shows "pixels (spec_perturbed x0 patch_size delta p) ! b ! c ! y ! x
           = pixels x0 ! b ! c ! y ! x
             + (if in_patch patch_size (fst p) (snd p) y x then delta else 0)"
proof -
  have lb: "b < length (pixels x0)" using assms(1,2) by (simp add: wf_image_def)
  then have "pixels x0 ! b \<in> set (pixels x0)" by simp
  then have lc: "c < length (pixels x0 ! b)" using assms(1,3) by (simp add: wf_image_def)
  show ?thesis
    using lb lc assms(4,5) by (simp add: spec_perturbed_def)
qed

lemma not_in_patch_beyond:
  assumes "i < nh" and "j < nw" and "nh * patch_size \<le> y \<or> nw * patch_size \<le> x"
  shows "\<not> in_patch patch_size i j y x"
proof -
  have "i + 1 \<le> nh" "j + 1 \<le> nw" using assms(1,2) by simp_all
  then have "(i + 1) * patch_size \<le> nh * patch_size" "(j + 1) * patch_size \<le> nw * patch_size"
    using mult_le_mono1 by blast+
  then show ?thesis using assms(3) by (auto simp: in_patch_def)
qed

lemma patch_slice_inside:
  assumes "0 < patch_size" and "i < n div nat patch_size"
  shows "slice_bounds n (int i * patch_size) ((int i + 1) * patch_size)
           = (i * nat patch_size, (i + 1) * nat patch_size)"
    and "(i + 1) * nat patch_size \<le> n"
proof -
  have "i + 1 \<le> n div nat patch_size" using assms(2) by simp
  then have "(i + 1) * nat patch_size \<le> (n div nat patch_size) * nat patch_size"
    by (rule mult_le_mono1)
  also have "\<dots> \<le> n" by simp
  finally show le: "(i + 1) * nat patch_size \<le> n" .
  then have "i * nat patch_size \<le> n" by simp
  then show "slice_bounds n (int i * patch_size) ((int i + 1) * patch_size)
           = (i * nat patch_size, (i + 1) * nat patch_size)"
    using le by (simp add: slice_bounds_patch[OF assms(1)] min_def)
qed

text \<open>
  C8. For an image with \<open>H, W \<ge> patch_size\<close> (divisible by it or not), valid
  parameters and a scoring function that does not write into its input:
  the call returns a heatmap (so no index is out of range: neither the write
  \<open>heatmap[i, j]\<close> nor anything else raises); the patch grid has exactly
  \<open>H // patch_size\<close> rows of \<open>W // patch_size\<close> entries; the slice of every patch
  lies inside the image, unclamped; and every tensor the call creates (the
  perturbed clones) agrees with the image at every pixel beyond the last full
  patch in either dimension, while the tensors that existed before are
  unchanged.
\<close>

theorem remainder_pixels_untouched:
  assumes "0 < patch_size" and "0 < num_samples"
    and "class_ok m k" and "no_input_write m"
    and "img < length T" and "wf_image (T ! img)"
    and "nat patch_size \<le> height (T ! img)" and "nat patch_size \<le> width (T ! img)"
    and "nh = height (T ! img) div nat patch_size"
    and "nw = width (T ! img) div nat patch_size"
    and "w' = snd (generate_attribution img k m patch_size num_samples delta
                     \<lparr>tensors = T, model_state = s\<rparr>)"
  shows "(\<exists>t. fst (generate_attribution img k m patch_size num_samples delta
                    \<lparr>tensors = T, model_state = s\<rparr>) = Inr t)
       \<and> (\<exists>h. fst (patch_sensitivities img k m patch_size num_samples delta
                    \<lparr>tensors = T, model_state = s\<rparr>)
                 = Inr (h, height (T ! img), width (T ! img))
               \<and> length h = nh \<and> (\<forall>r \<in> set h. length r = nw))
       \<and> (\<forall>i < nh. slice_bounds (height (T ! img)) (int i * patch_size) ((int i + 1) * patch_size)
                      = (i * nat patch_size, (i + 1) * nat patch_size)
                    \<and> (i + 1) * nat patch_size \<le> height (T ! img))
       \<and> (\<forall>j < nw. slice_bounds (width (T ! img)) (int j * patch_size) ((int j + 1) * patch_size)
                      = (j * nat patch_size, (j + 1) * nat patch_size)
                    \<and> (j + 1) * nat patch_size \<le> width (T ! img))
       \<and> take (length T) (tensors w') = T
       \<and> (\<forall>t \<in> set (drop (length T) (tensors w')).
            \<forall>b < batch (T ! img). \<forall>c < channels (T ! img).
            \<forall>y < height (T ! img). \<forall>x < width (T ! img).
              nh * nat patch_size \<le> y \<or> nw * nat patch_size \<le> x \<longrightarrow>
              pixels t ! b ! c ! y ! x = pixels (T ! img) ! b ! c ! y ! x)"
proof (intro conjI)
  let ?x = "T ! img"
  show "\<exists>t. fst (generate_attribution img k m patch_size num_samples delta
                    \<lparr>tensors = T, model_state = s\<rparr>) = Inr t"
    using generate_attribution_valid[OF assms(3,1,2,5,4,7,8), of delta s] by blast
  show "\<exists>h. fst (patch_sensitivities img k m patch_size num_samples delta
                    \<lparr>tensors = T, model_state = s\<rparr>)
                 = Inr (h, height ?x, width ?x)
               \<and> length h = nh \<and> (\<forall>r \<in> set h. length r = nw)"
    using patch_sensitivities_raw_grid[OF assms(3,1,2,5,4), of delta s]
      raw_grid_shape[of ?x patch_size m k num_samples delta "eval_mode m s"] assms(9,10)
    by (simp add: has_shape_def)
  show "\<forall>i < nh. slice_bounds (height ?x) (int i * patch_size) ((int i + 1) * patch_size)
                      = (i * nat patch_size, (i + 1) * nat patch_size)
                    \<and> (i + 1) * nat patch_size \<le> height ?x"
    using patch_slice_inside[OF assms(1)] assms(9) by blast
  show "\<forall>j < nw. slice_bounds (width ?x) (int j * patch_size) ((int j + 1) * patch_size)
                      = (j * nat patch_size, (j + 1) * nat patch_size)
                    \<and> (j + 1) * nat patch_size \<le> width ?x"
    using patch_slice_inside[OF assms(1)] assms(10) by blast
  have cl: "clones_only T
           ((\<lambda>p. perturbed_of ?x patch_size delta p) ` ({0..<nh} \<times> {0..<nw})) w'"
    using generate_attribution_clones[OF assms(3,4,5,1), of delta num_samples s] assms(9,10,11)
    by simp
  then show "take (length T) (tensors w') = T" by (simp add: clones_only_def kept_def)
  show "\<forall>t \<in> set (drop (length T) (tensors w')).
            \<forall>b < batch ?x. \<forall>c < channels ?x. \<forall>y < height ?x. \<forall>x < width ?x.
              nh * nat patch_size \<le> y \<or> nw * nat patch_size \<le> x \<longrightarrow>
              pixels t ! b ! c ! y ! x = pixels ?x ! b ! c ! y ! x"
  proof (intro ballI allI impI)
    fix t b c y x
    assume t: "t \<in> set (drop (length T) (tensors w'))"
      and r: "b < batch ?x" "c < channels ?x" "y < height ?x" "x < width ?x"
      and o: "nh * nat patch_size \<le> y \<or> nw * nat patch_size \<le> x"
    obtain p where p: "fst p < nh" "snd p < nw" "t = perturbed_of ?x patch_size delta p"
      using cl t by (auto simp: clones_only_def)
    have "t = spec_perturbed ?x (nat patch_size) delta p"
      using p(3) perturbed_of_spec[OF assms(6,1)] by simp
    then show "pixels t ! b ! c ! y ! x = pixels ?x ! b ! c ! y ! x"
      using spec_perturbed_pixel[OF assms(6) r, of "nat patch_size" delta p]
        not_in_patch_beyond[OF p(1,2) o]
      by simp
  qed
qed

text \<open>
  The theorem on a 230 by 230 image with \<open>patch_size = 16\<close> (a 14 by 14 grid
  that covers 224 by 224 pixels, the last slice being \<open>208:224\<close>), and on a
  3 by 3 image with \<open>patch_size = 2\<close>: the one clone the call creates has the
  pixels of the image in its last row and its last column.
\<close>

theorem remainder_pixels_untouched_witness:
  "class_ok counting_model 0 \<and> no_input_write counting_model
   \<and> wf_image img230 \<and> wf_image img33
   \<and> height img230 div nat 16 = 14 \<and> 14 * nat 16 = (224::nat)
   \<and> (\<exists>t. fst (generate_attribution 0 0 counting_model 16 1 (1 / 20)
                  \<lparr>tensors = [img230], model_state = 0\<rparr>) = Inr t)
   \<and> (\<exists>h. fst (patch_sensitivities 0 0 counting_model 16 1 (1 / 20)
                  \<lparr>tensors = [img230], model_state = 0\<rparr>)
              = Inr (h, height img230, width img230)
            \<and> length h = 14 \<and> (\<forall>r \<in> set h. length r = 14))
   \<and> slice_bounds (height img230) (int 13 * 16) ((int 13 + 1) * 16) = (13 * nat 16, (13 + 1) * nat 16)
   \<and> length (tensors (snd (generate_attribution 0 0 counting_model 2 1 (1 / 2)
                  \<lparr>tensors = [img33], model_state = 0\<rparr>))) = 2
   \<and> pixels (tensors (snd (generate_attribution 0 0 counting_model 2 1 (1 / 2)
                  \<lparr>tensors = [img33], model_state = 0\<rparr>)) ! 1) ! 0 ! 1 ! 2 ! 0
       = pixels img33 ! 0 ! 1 ! 2 ! 0
   \<and> pixels (tensors (snd (generate_attribution 0 0 counting_model 2 1 (1 / 2)
                  \<lparr>tensors = [img33], model_state = 0\<rparr>)) ! 1) ! 0 ! 2 ! 1 ! 2
       = pixels img33 ! 0 ! 2 ! 1 ! 2"
proof -
  have d: "[img230] ! 0 = img230" "[img33] ! 0 = img33" by simp_all
  have h: "(0::int) < 16" "(0::int) < 1" "(0::nat) < length [img230]"
    "wf_image ([img230] ! 0)"
    "nat 16 \<le> height ([img230] ! 0)" "nat 16 \<le> width ([img230] ! 0)"
    "(14::nat) = height ([img230] ! 0) div nat 16"
    "(14::nat) = width ([img230] ! 0) div nat 16"
    by (simp_all add: wf_img230) (simp_all add: img230_def)
  note t = remainder_pixels_untouched[OF h(1,2) class_ok_counting no_input_write_counting
      h(3,4,5,6,7,8) refl, of "1 / 20" 0, unfolded d]
  have n: "height img230 div nat 16 = 14" "14 * nat 16 = (224::nat)"
    by (simp_all add: img230_def)
  have s13: "slice_bounds (height img230) (int 13 * 16) ((int 13 + 1) * 16)
               = (13 * nat 16, (13 + 1) * nat 16)"
  proof -
    have lt: "(13::nat) < 14" by simp
    have "\<forall>i<14. slice_bounds (height img230) (int i * 16) ((int i + 1) * 16)
                     = (i * nat 16, (i + 1) * nat 16)
                   \<and> (i + 1) * nat 16 \<le> height img230"
      using t by blast
    then show ?thesis using lt by blast
  qed
  let ?w = "snd (generate_attribution 0 0 counting_model 2 1 (1 / 2)
                  \<lparr>tensors = [img33], model_state = 0\<rparr>)"
  have g: "(0::int) < 2" "(0::int) < 1" "(0::nat) < length [img33]"
    "wf_image ([img33] ! 0)"
    "nat 2 \<le> height ([img33] ! 0)" "nat 2 \<le> width ([img33] ! 0)"
    "(1::nat) = height ([img33] ! 0) div nat 2"
    "(1::nat) = width ([img33] ! 0) div nat 2"
    by (simp_all add: wf_img33) (simp_all add: img33_def)
  note u = remainder_pixels_untouched[OF g(1,2) class_ok_counting no_input_write_counting
      g(3,4,5,6,7,8) refl, of "1 / 2" 0, unfolded d]
  have len: "length (tensors ?w) = 2"
    by (simp add: run_defs counting_model_def img33_def)
  have "drop (length [img33]) (tensors ?w) ! 0 \<in> set (drop (length [img33]) (tensors ?w))"
    using len by (intro nth_mem) simp
  moreover have "drop (length [img33]) (tensors ?w) ! 0 = tensors ?w ! 1"
    using len by simp
  ultimately have mem: "tensors ?w ! 1 \<in> set (drop (length [img33]) (tensors ?w))"
    by simp
  have dims: "(0::nat) < batch img33" "(1::nat) < channels img33" "(2::nat) < channels img33"
    "(2::nat) < height img33" "(1::nat) < height img33"
    "(0::nat) < width img33" "(2::nat) < width img33"
    by (simp_all add: img33_def)
  have rest: "\<And>b c y x. b < batch img33 \<Longrightarrow> c < channels img33 \<Longrightarrow> y < height img33
                \<Longrightarrow> x < width img33 \<Longrightarrow> 1 * nat 2 \<le> y \<or> 1 * nat 2 \<le> x
                \<Longrightarrow> pixels (tensors ?w ! 1) ! b ! c ! y ! x = pixels img33 ! b ! c ! y ! x"
    using u mem by blast
  have p1: "pixels (tensors ?w ! 1) ! 0 ! 1 ! 2 ! 0 = pixels img33 ! 0 ! 1 ! 2 ! 0"
    by (rule rest[OF dims(1,2,4,6)]) simp
  have p2: "pixels (tensors ?w ! 1) ! 0 ! 2 ! 1 ! 2 = pixels img33 ! 0 ! 2 ! 1 ! 2"
    by (rule rest[OF dims(1,3,5,7)]) simp
  show ?thesis
    using t n s13 len p1 p2 class_ok_counting no_input_write_counting wf_img230 wf_img33
    by blast
qed

subsection \<open>Invalid parameters\<close>

lemma for_each_Nil_world: "for_each [] body acc w = (Inr acc, w)"
  by simp

lemma patch_indices_empty:
  assumes "nh = 0 \<or> nw = 0"
  shows "patch_indices nh nw = []"
  using assms by (auto simp: patch_indices_def)

lemma concat_zeros_empty:
  assumes "nh = 0 \<or> nw = 0"
  shows "concat (replicate nh (replicate nw (0::real))) = []"
  using assms by auto

lemma patch_step_no_samples:
  assumes "num_samples \<le> 0"
  shows "patch_step m k img patch_size num_samples delta p0 p h w = (Inl ZeroDivisionError, w)"
  using assms by (simp add: patch_step_def py_range_def truediv_def)

lemma patch_indices_first:
  assumes "0 < nh" "0 < nw"
  shows "\<exists>rest. patch_indices nh nw = (0, 0) # rest"
proof -
  obtain post where "patch_indices nh nw = patches_before nw (0, 0) @ (0, 0) # post"
    using patch_indices_split[OF assms] by blast
  then show ?thesis by (simp add: patches_before_def patch_indices_def)
qed

text \<open>
  C1, as the code has it. There is no check of the parameters. With
  \<open>patch_size \<le> 0\<close>, \<open>num_samples \<le> 0\<close>, \<open>H < patch_size\<close> or \<open>W < patch_size\<close>
  the call does fail, but after the forward pass on the image (the state of
  the model is the one after exactly that pass, and no clone has been made),
  and with \<open>ZeroDivisionError\<close> (\<open>patch_size = 0\<close>, or no sample for a non-empty
  grid) or the tensor library's \<open>RuntimeError\<close> (a negative grid dimension or
  an empty grid).
\<close>

theorem invalid_configuration_fails_late:
  assumes "patch_size \<le> 0 \<or> num_samples \<le> 0
           \<or> int (height (T ! img)) < patch_size \<or> int (width (T ! img)) < patch_size"
    and "class_ok m k" and "no_input_write m" and "img < length T"
  shows "generate_attribution img k m patch_size num_samples delta
           \<lparr>tensors = T, model_state = s\<rparr>
         = (Inl (if patch_size = 0
                    \<or> (0 < patch_size \<and> patch_size \<le> int (height (T ! img))
                        \<and> patch_size \<le> int (width (T ! img)))
                 then ZeroDivisionError else RuntimeError),
            \<lparr>tensors = T, model_state = next_state m (eval_mode m s) (T ! img)\<rparr>)"
proof -
  let ?x = "T ! img"
  let ?H = "height ?x" and ?W = "width ?x"
  let ?p0 = "score m k (eval_mode m s) ?x"
  let ?w2 = "\<lparr>tensors = T, model_state = next_state m (eval_mode m s) ?x\<rparr>"
  let ?w0 = "\<lparr>tensors = T, model_state = s\<rparr>"
  have x1: "left_in_input m (eval_mode m s) ?x = ?x"
    by (rule no_input_write_left[OF assms(3)])
  have tp: "target_prob (fst (forward m (eval_mode m s) ?x)) k = Inr ?p0"
    by (rule target_prob_score[OF assms(2)])
  have Tid: "T[img := ?x] = T" by simp
  consider (zero) "patch_size = 0"
    | (neg) "patch_size < 0"
    | (small) "0 < patch_size" "int ?H < patch_size \<or> int ?W < patch_size"
    | (nosample) "0 < patch_size" "patch_size \<le> int ?H" "patch_size \<le> int ?W"
        "num_samples \<le> 0"
    using assms(1) by linarith
  then show ?thesis
  proof cases
    case zero
    have "baseline img k m patch_size ?w0 = (Inl ZeroDivisionError, ?w2)"
      using tp zero x1 Tid
      by (simp add: baseline_def call_model_result Let_def floordiv_def)
    then show ?thesis
      using zero by (simp add: generate_attribution_def patch_sensitivities_def)
  next
    case neg
    show ?thesis
    proof (cases "0 < ?H \<or> 0 < ?W")
      case True
      then have "int ?H div patch_size < 0 \<or> int ?W div patch_size < 0"
        using neg by (auto simp: neg_imp_zdiv_neg_iff)
      then have "baseline img k m patch_size ?w0 = (Inl RuntimeError, ?w2)"
        using tp neg x1 Tid
        by (simp add: baseline_def call_model_result Let_def floordiv_def zeros_def)
      then show ?thesis
        using neg by (simp add: generate_attribution_def patch_sensitivities_def)
    next
      case False
      then have z: "?H = 0" "?W = 0" by auto
      have b: "baseline img k m patch_size ?w0 = (Inr (?p0, 0, 0, 0, 0, []), ?w2)"
        using tp neg x1 Tid z
        by (simp add: baseline_def call_model_result Let_def floordiv_def zeros_def)
      have l: "patch_loops m k img patch_size num_samples delta ?p0 0 0 [] ?w2 = (Inr [], ?w2)"
        by (simp add: patch_loops_def py_range_def)
      have "patch_sensitivities img k m patch_size num_samples delta ?w0
              = (Inr ([], 0, 0), ?w2)"
        using b l by (simp add: patch_sensitivities_def)
      then show ?thesis
        using neg by (simp add: generate_attribution_def normalize_empty)
    qed
  next
    case small
    let ?nh = "?H div nat patch_size" and ?nw = "?W div nat patch_size"
    let ?h0 = "replicate ?nh (replicate ?nw (0::real))"
    have e: "?nh = 0 \<or> ?nw = 0" using small by auto
    have b: "baseline img k m patch_size ?w0
               = (Inr (?p0, ?H, ?W, int ?nh, int ?nw, ?h0), ?w2)"
      using baseline_result[OF tp small(1) assms(4) refl] x1 Tid by simp
    have l: "patch_loops m k img patch_size num_samples delta ?p0 (int ?nh) (int ?nw) ?h0 ?w2
               = (Inr ?h0, ?w2)"
      unfolding patch_loops_flat patch_indices_empty[OF e] by simp
    have "patch_sensitivities img k m patch_size num_samples delta ?w0
              = (Inr (?h0, ?H, ?W), ?w2)"
      using b l by (simp add: patch_sensitivities_def)
    moreover have "normalize ?h0 = Inl RuntimeError"
      by (rule normalize_empty[OF concat_zeros_empty[OF e]])
    moreover have "\<not> (patch_size \<le> int ?H \<and> patch_size \<le> int ?W)" "patch_size \<noteq> 0"
      using small by auto
    ultimately show ?thesis
      by (simp add: generate_attribution_def)
  next
    case nosample
    let ?nh = "?H div nat patch_size" and ?nw = "?W div nat patch_size"
    let ?h0 = "replicate ?nh (replicate ?nw (0::real))"
    have ps: "0 < nat patch_size" using nosample(1) by simp
    have "nat patch_size \<le> ?H" "nat patch_size \<le> ?W" using nosample by simp_all
    then have "0 < ?nh" "0 < ?nw" using ps by (simp_all add: div_greater_zero_iff)
    then obtain rest where r: "patch_indices ?nh ?nw = (0, 0) # rest"
      using patch_indices_first by blast
    have b: "baseline img k m patch_size ?w0
               = (Inr (?p0, ?H, ?W, int ?nh, int ?nw, ?h0), ?w2)"
      using baseline_result[OF tp nosample(1) assms(4) refl] x1 Tid by simp
    have l: "patch_loops m k img patch_size num_samples delta ?p0 (int ?nh) (int ?nw) ?h0 ?w2
               = (Inl ZeroDivisionError, ?w2)"
      unfolding patch_loops_flat r
      by (simp add: patch_step_no_samples[OF nosample(4)])
    have "patch_sensitivities img k m patch_size num_samples delta ?w0
              = (Inl ZeroDivisionError, ?w2)"
      using b l by (simp add: patch_sensitivities_def)
    then show ?thesis
      using nosample by (simp add: generate_attribution_def)
  qed
qed

text \<open>The theorem with no sample, and with a negative \<open>patch_size\<close>.\<close>

theorem invalid_configuration_fails_late_witness:
  "class_ok counting_model 0 \<and> no_input_write counting_model
   \<and> generate_attribution 0 0 counting_model 1 0 (1 / 20)
         \<lparr>tensors = [img12], model_state = 0\<rparr>
       = (Inl ZeroDivisionError, \<lparr>tensors = [img12], model_state = 1\<rparr>)
   \<and> generate_attribution 0 0 counting_model (- 4) 3 (1 / 20)
         \<lparr>tensors = [img12], model_state = 0\<rparr>
       = (Inl RuntimeError, \<lparr>tensors = [img12], model_state = 1\<rparr>)"
proof -
  have a: "(1::int) \<le> 0 \<or> (0::int) \<le> 0 \<or> int (height ([img12] ! 0)) < 1
             \<or> int (width ([img12] ! 0)) < 1" by simp
  have b: "(- 4::int) \<le> 0 \<or> (3::int) \<le> 0 \<or> int (height ([img12] ! 0)) < - 4
             \<or> int (width ([img12] ! 0)) < - 4" by simp
  have l: "(0::nat) < length [img12]" by simp
  have n: "next_state counting_model s x = Suc s" for s x
    by (simp add: next_state_def counting_model_def)
  have e: "eval_mode counting_model s = s" for s by (simp add: counting_model_def)
  show ?thesis
    using invalid_configuration_fails_late[OF a class_ok_counting no_input_write_counting l,
        of "1 / 20" 0]
      invalid_configuration_fails_late[OF b class_ok_counting no_input_write_counting l,
        of "1 / 20" 0]
      class_ok_counting no_input_write_counting
    by (simp add: n e img12_def)
qed

text \<open>
  C1 as stated fails: a 1 by 1 image with \<open>patch_size = 2\<close> gives a
  \<open>RuntimeError\<close>, and the model has been called once by then.
\<close>

theorem invalid_configuration_counterexample:
  "generate_attribution 0 0 counting_model 2 1 (1 / 20) \<lparr>tensors = [img11], model_state = 0\<rparr>
     = (Inl RuntimeError, \<lparr>tensors = [img11], model_state = 1\<rparr>)"
  by (simp add: run_defs counting_model_def img11_def)

end
